(* ===== verification/Rust_Prelude.thy ===== *)
theory Rust_Prelude
  imports Complex_Main "HOL-Library.Word"
begin

text \<open>
  What the components share: the machine types of the program, a panic as a
  value, sequencing of computations that may panic, the arithmetic of Rust's
  two build modes, and the decimal conversions (\<open>FromStr\<close> and
  \<open>Display\<close> of integers) that the program uses.
\<close>

named_theorems result_simps \<open>rewriting of sequenced fallible computations\<close>
named_theorems parse_simps \<open>rewriting of decimal conversions\<close>

section \<open>Machine types\<close>

type_synonym u8 = "8 word"
type_synonym u16 = "16 word"
type_synonym u32 = "32 word"
type_synonym u64 = "64 word"
type_synonym usize = "64 word"
type_synonym i32 = "32 word"

section \<open>Panics and sequencing\<close>

text \<open>
  A Rust function either returns or panics: a computation of type
  \<open>panic + 'a\<close> is \<open>Inl\<close> of the panic or \<open>Inr\<close> of the value returned.
\<close>

datatype panic =
    Unwrap_None
  | Unwrap_Err
  | Expect string
  | Panic_msg string
  | Assert_failed
  | Index_out_of_bounds
  | Arith_overflow
  | Div_by_zero
  | Empty_range
  | Unreachable

fun bind_res :: "'e + 'a \<Rightarrow> ('a \<Rightarrow> 'e + 'b) \<Rightarrow> 'e + 'b" where
  "bind_res (Inl e) f = Inl e"
| "bind_res (Inr a) f = f a"

fun map_res :: "('a \<Rightarrow> 'b) \<Rightarrow> 'e + 'a \<Rightarrow> 'e + 'b" where
  "map_res f (Inl e) = Inl e"
| "map_res f (Inr a) = Inr (f a)"

fun expect_some :: "'e \<Rightarrow> 'a option \<Rightarrow> 'e + 'a" where
  "expect_some e None = Inl e"
| "expect_some e (Some a) = Inr a"

fun traverse :: "('a \<Rightarrow> 'e + 'b) \<Rightarrow> 'a list \<Rightarrow> 'e + 'b list" where
  "traverse f [] = Inr []"
| "traverse f (x # xs) = bind_res (f x) (\<lambda>y. map_res ((#) y) (traverse f xs))"

lemma bind_res_eq_Inr [result_simps]:
  "bind_res r f = Inr b \<longleftrightarrow> (\<exists>a. r = Inr a \<and> f a = Inr b)"
  by (cases r) auto

lemma bind_res_eq_Inl [result_simps]:
  "bind_res r f = Inl e \<longleftrightarrow> r = Inl e \<or> (\<exists>a. r = Inr a \<and> f a = Inl e)"
  by (cases r) auto

lemma map_res_eq_Inr [result_simps]:
  "map_res g r = Inr b \<longleftrightarrow> (\<exists>a. r = Inr a \<and> b = g a)"
  by (cases r) auto

lemma map_res_eq_Inl [result_simps]: "map_res g r = Inl e \<longleftrightarrow> r = Inl e"
  by (cases r) auto

lemma expect_some_eq_Inr [result_simps]: "expect_some e v = Inr a \<longleftrightarrow> v = Some a"
  by (cases v) auto

lemma expect_some_eq_Inl [result_simps]: "expect_some e v = Inl e' \<longleftrightarrow> v = None \<and> e' = e"
  by (cases v) auto

lemma traverse_eq_Inr [result_simps]:
  "traverse f xs = Inr ys \<longleftrightarrow> list_all2 (\<lambda>x y. f x = Inr y) xs ys"
proof (induction xs arbitrary: ys)
  case Nil
  then show ?case by auto
next
  case (Cons x xs)
  then show ?case by (cases ys) (auto simp: result_simps)
qed

lemma traverse_map_Inr: "(\<And>x. x \<in> set xs \<Longrightarrow> f (g x) = Inr (h x)) \<Longrightarrow>
    traverse f (map g xs) = Inr (map h xs)"
  by (induction xs) auto

lemma traverse_eq_Inl:
  "traverse f xs = Inl e \<Longrightarrow> \<exists>x \<in> set xs. f x = Inl e"
  by (induction xs) (auto simp: result_simps)

lemma traverse_succeeds:
  "(\<exists>ys. traverse f xs = Inr ys) \<longleftrightarrow> (\<forall>x \<in> set xs. \<exists>y. f x = Inr y)"
proof (induction xs)
  case Nil
  then show ?case by simp
next
  case (Cons x xs)
  then show ?case by (cases "f x") (auto simp: result_simps)
qed

section \<open>Arithmetic in the two build modes\<close>

text \<open>
  With overflow checks (a debug build) an overflowing \<open>+\<close> panics, without
  them (a release build) it wraps. The flag \<open>oc\<close> of a definition is the build's
  setting.
\<close>

definition add_oc :: "bool \<Rightarrow> 'a::len word \<Rightarrow> 'a word \<Rightarrow> panic + 'a word" where
  "add_oc oc a b =
     (if oc \<and> 2 ^ LENGTH('a) \<le> unat a + unat b then Inl Arith_overflow else Inr (a + b))"

definition sub_oc :: "bool \<Rightarrow> 'a::len word \<Rightarrow> 'a word \<Rightarrow> panic + 'a word" where
  "sub_oc oc a b = (if oc \<and> unat a < unat b then Inl Arith_overflow else Inr (a - b))"

lemma add_oc_wraps [simp]: "add_oc False a b = Inr (a + b)"
  by (simp add: add_oc_def)

lemma sub_oc_wraps [simp]: "sub_oc False a b = Inr (a - b)"
  by (simp add: sub_oc_def)

lemma add_oc_exact:
  fixes a b :: "'a::len word"
  assumes "unat a + unat b < 2 ^ LENGTH('a)"
  shows "add_oc oc a b = Inr (a + b)" "unat (a + b) = unat a + unat b"
  using assms by (simp_all add: add_oc_def unat_word_ariths)

lemma sub_oc_exact:
  fixes a b :: "'a::len word"
  assumes "unat b \<le> unat a"
  shows "sub_oc oc a b = Inr (a - b)" "unat (a - b) = unat a - unat b"
  using assms by (simp_all add: sub_oc_def unat_sub word_le_nat_alt)

lemma add_oc_eq_Inr: "add_oc oc a b = Inr c \<Longrightarrow> c = a + b"
  by (auto simp: add_oc_def split: if_splits)

lemma sub_oc_eq_Inr: "sub_oc oc a b = Inr c \<Longrightarrow> c = a - b"
  by (auto simp: sub_oc_def split: if_splits)

section \<open>Decimal conversions\<close>

definition digit_of :: "char \<Rightarrow> nat option" where
  "digit_of c = (let k = of_char c in if 48 \<le> k \<and> k \<le> 57 then Some (k - 48) else None)"

definition char_of_digit :: "nat \<Rightarrow> char" where
  "char_of_digit d = char_of (48 + d)"

fun digits_from :: "nat \<Rightarrow> string \<Rightarrow> nat option" where
  "digits_from acc [] = Some acc"
| "digits_from acc (c # cs) =
     (case digit_of c of None \<Rightarrow> None | Some d \<Rightarrow> digits_from (10 * acc + d) cs)"

text \<open>
  \<open><uN as FromStr>::from_str\<close>: the empty string and a lone sign are errors, one
  leading plus sign is skipped, every other character is a decimal digit, and a
  value of \<open>2 ^ w\<close> or more is an overflow error.
\<close>

definition nat_from_str :: "nat \<Rightarrow> string \<Rightarrow> nat option" where
  "nat_from_str w s =
     (if s = [] \<or> s = ''+'' \<or> s = ''-'' then None
      else case digits_from 0 (if hd s = CHR ''+'' then tl s else s) of
             None \<Rightarrow> None
           | Some n \<Rightarrow> if n < 2 ^ w then Some n else None)"

definition usize_from_str :: "string \<Rightarrow> usize option" where
  "usize_from_str s = map_option of_nat (nat_from_str 64 s)"

definition u64_from_str :: "string \<Rightarrow> u64 option" where
  "u64_from_str s = map_option of_nat (nat_from_str 64 s)"

definition u32_from_str :: "string \<Rightarrow> u32 option" where
  "u32_from_str s = map_option of_nat (nat_from_str 32 s)"

definition u16_from_str :: "string \<Rightarrow> u16 option" where
  "u16_from_str s = map_option of_nat (nat_from_str 16 s)"

text \<open>\<open>i32::from_str\<close> also takes a leading minus sign, down to \<open>- (2 ^ 31)\<close>.\<close>

definition i32_from_str :: "string \<Rightarrow> i32 option" where
  "i32_from_str s =
     (if s \<noteq> [] \<and> s \<noteq> ''-'' \<and> hd s = CHR ''-''
      then case digits_from 0 (tl s) of
             None \<Rightarrow> None
           | Some n \<Rightarrow> if n \<le> 2 ^ 31 then Some (- of_nat n) else None
      else map_option of_nat (nat_from_str 31 s))"

text \<open>\<open>CString::from_str\<close> is \<open>CString::new\<close>: an error on an interior NUL byte.\<close>

definition cstring_from_str :: "string \<Rightarrow> string option" where
  "cstring_from_str s = (if CHR 0x00 \<in> set s then None else Some s)"

fun show_nat :: "nat \<Rightarrow> string" where
  "show_nat n =
     (if n < 10 then [char_of_digit n] else show_nat (n div 10) @ [char_of_digit (n mod 10)])"

declare show_nat.simps [simp del]

lemma digit_of_char_of_digit [simp, parse_simps]: "d < 10 \<Longrightarrow> digit_of (char_of_digit d) = Some d"
  by (simp add: digit_of_def char_of_digit_def)

lemma char_of_digit_neq [simp]:
  "d < 10 \<Longrightarrow> char_of_digit d \<noteq> CHR ''+''" "d < 10 \<Longrightarrow> char_of_digit d \<noteq> CHR ''-''"
  by (auto simp: char_of_digit_def dest!: arg_cong [where f = "of_char :: char \<Rightarrow> nat"])

lemma digits_from_append [parse_simps]:
  "digits_from a (xs @ ys) =
     (case digits_from a xs of None \<Rightarrow> None | Some b \<Rightarrow> digits_from b ys)"
  by (induction xs arbitrary: a) (auto split: option.splits)

lemma show_nat_not_Nil [simp]: "show_nat n \<noteq> []"
  by (subst show_nat.simps) simp

lemma digits_from_show_nat [parse_simps]: "digits_from 0 (show_nat n) = Some n"
proof (induction n rule: show_nat.induct)
  case (1 n)
  show ?case
  proof (cases "n < 10")
    case True
    then show ?thesis by (simp add: show_nat.simps [of n])
  next
    case False
    with "1.IH" show ?thesis
      by (simp add: show_nat.simps [of n] parse_simps)
  qed
qed

lemma hd_show_nat [simp]: "hd (show_nat n) \<noteq> CHR ''+''" "hd (show_nat n) \<noteq> CHR ''-''"
proof (induction n rule: show_nat.induct)
  case (1 n)
  { case 1 from "1.IH"(1) show ?case
      by (cases "n < 10") (simp_all add: show_nat.simps [of n]) }
  { case 2 from "1.IH"(2) show ?case
      by (cases "n < 10") (simp_all add: show_nat.simps [of n]) }
qed

lemma nat_from_str_show_nat [parse_simps]:
  "nat_from_str w (show_nat n) = (if n < 2 ^ w then Some n else None)"
proof -
  have "show_nat n \<noteq> ''+''" "show_nat n \<noteq> ''-''"
    using hd_show_nat [of n] by (metis list.sel(1))+
  then show ?thesis by (simp add: nat_from_str_def parse_simps)
qed

lemma nat_from_str_bound: "nat_from_str w s = Some n \<Longrightarrow> n < 2 ^ w"
  by (auto simp: nat_from_str_def split: if_splits option.splits)

lemma show_nat_digits: "c \<in> set (show_nat n) \<Longrightarrow> \<exists>d < 10. c = char_of_digit d"
proof (induction n rule: show_nat.induct)
  case (1 n)
  show ?case
  proof (cases "n < 10")
    case True
    with "1.prems" show ?thesis by (auto simp: show_nat.simps [of n])
  next
    case False
    have "\<exists>d < 10. char_of_digit (n mod 10) = char_of_digit d" by (rule exI [of _ "n mod 10"]) simp
    with False "1.prems" "1.IH" show ?thesis by (auto simp: show_nat.simps [of n])
  qed
qed

lemma of_char_char_of_digit [simp]: "d < 10 \<Longrightarrow> of_char (char_of_digit d) = 48 + d"
  by (simp add: char_of_digit_def)

lemma show_nat_char_range: "c \<in> set (show_nat n) \<Longrightarrow> 48 \<le> (of_char c :: nat) \<and> (of_char c :: nat) < 58"
  by (auto dest!: show_nat_digits)

lemma show_nat_no_comma [simp]: "CHR '','' \<notin> set (show_nat n)" "CHR 0x00 \<notin> set (show_nat n)"
  by (auto dest: show_nat_char_range)

lemma unat_bounds [simp]:
  "unat (x16 :: 16 word) < 65536" "unat (x32 :: 32 word) < 4294967296"
  "unat (x64 :: 64 word) < 18446744073709551616"
  using unsigned_less [of x16] unsigned_less [of x32] unsigned_less [of x64] by simp_all

lemma show_nat_inject [simp]: "show_nat m = show_nat n \<longleftrightarrow> m = n"
  by (metis digits_from_show_nat option.inject)

end
