(* ===== verification/Rust_F64.thy ===== *)
theory Rust_F64
  imports Rust_Prelude "HOL-Library.Log_Nat"
begin

text \<open>
  The part of Rust's \<open>f64\<close> the program uses: multiplication (rounded to
  nearest, ties to even), \<open>round\<close>, the saturating casts to an unsigned type and
  \<open>f64::from_str\<close>. A finite double is its rational value, so the two zeros
  are one value, which none of these operations tells apart.
\<close>

datatype f64 = NaN | Infinity bool | Fin rat

section \<open>Rounding a rational to the nearest double\<close>

definition ilog2 :: "rat \<Rightarrow> int" where
  "ilog2 q = (case quotient_of q of (a, b) \<Rightarrow>
     let e = bitlen a - bitlen b in if 2 powi e \<le> q then e else e - 1)"

definition half_even :: "rat \<Rightarrow> int" where
  "half_even q =
     (let n = \<lfloor>q\<rfloor>; r = q - of_int n
      in if r < 1 / 2 then n else if 1 / 2 < r then n + 1
         else if even n then n else n + 1)"

definition ulp :: "rat \<Rightarrow> rat" where
  "ulp q = (if q = 0 then 1 else 2 powi (max (ilog2 \<bar>q\<bar> - 52) (-1074)))"

definition f64_of_rat :: "rat \<Rightarrow> f64" where
  "f64_of_rat q =
     (let v = of_int (half_even (q / ulp q)) * ulp q
      in if 2 ^ 1024 \<le> \<bar>v\<bar> then Infinity (q < 0) else Fin v)"

section \<open>The operations\<close>

fun f64_neg :: "f64 \<Rightarrow> bool" where
  "f64_neg NaN = False"
| "f64_neg (Infinity s) = s"
| "f64_neg (Fin q) = (q < 0)"

fun f64_mul :: "f64 \<Rightarrow> f64 \<Rightarrow> f64" where
  "f64_mul (Fin p) (Fin q) = f64_of_rat (p * q)"
| "f64_mul NaN _ = NaN"
| "f64_mul _ NaN = NaN"
| "f64_mul (Infinity s) y = (if y = Fin 0 then NaN else Infinity (s \<noteq> f64_neg y))"
| "f64_mul x (Infinity s) = (if x = Fin 0 then NaN else Infinity (f64_neg x \<noteq> s))"

text \<open>\<open>f64::round\<close>: to the nearest integer, half way cases away from zero.\<close>

fun f64_round :: "f64 \<Rightarrow> f64" where
  "f64_round (Fin q) =
     Fin (of_int (if 0 \<le> q then \<lfloor>q + 1 / 2\<rfloor> else - \<lfloor>1 / 2 - q\<rfloor>))"
| "f64_round x = x"

text \<open>The cast \<open>as uN\<close>: towards zero, saturating at the bounds, \<open>NaN\<close> to 0.\<close>

fun f64_as_uint :: "nat \<Rightarrow> f64 \<Rightarrow> int" where
  "f64_as_uint w NaN = 0"
| "f64_as_uint w (Infinity s) = (if s then 0 else 2 ^ w - 1)"
| "f64_as_uint w (Fin q) = (if q < 0 then 0 else min \<lfloor>q\<rfloor> (2 ^ w - 1))"

definition f64_as_usize :: "f64 \<Rightarrow> usize" where
  "f64_as_usize x = of_int (f64_as_uint 64 x)"

text \<open>
  The delay computation the workers share, \<open>(x * k).round() as uN\<close>: a sampled
  interval times a scale, rounded, as an unsigned integer of width \<open>w\<close>.
\<close>

definition scaled :: "nat \<Rightarrow> rat \<Rightarrow> f64 \<Rightarrow> int" where
  "scaled w k x = f64_as_uint w (f64_round (f64_mul x (Fin k)))"

text \<open>\<open>Exp::new(rate).unwrap()\<close>, where \<open>exp_ok\<close> tells the accepted rates.\<close>

definition exp_new :: "(f64 \<Rightarrow> bool) \<Rightarrow> f64 \<Rightarrow> panic + unit" where
  "exp_new exp_ok rate = (if exp_ok rate then Inr () else Inl Unwrap_Err)"

section \<open>Reading a number\<close>

text \<open>
  \<open>f64::from_str\<close>: an optional sign, then \<open>inf\<close>, \<open>infinity\<close> or
  \<open>nan\<close> in any case, or digits with an optional point (at least one digit in
  all) and an optional exponent.
\<close>

definition to_lower :: "char \<Rightarrow> char" where
  "to_lower c = (let k = of_char c :: nat in if 65 \<le> k \<and> k \<le> 90 then char_of (k + 32) else c)"

definition is_digit :: "char \<Rightarrow> bool" where
  "is_digit c \<longleftrightarrow> digit_of c \<noteq> None"

definition digits_value :: "string \<Rightarrow> nat" where
  "digits_value s = (case digits_from 0 s of None \<Rightarrow> 0 | Some n \<Rightarrow> n)"

definition exponent_from_str :: "string \<Rightarrow> int option" where
  "exponent_from_str s =
     (case s of [] \<Rightarrow> Some 0
      | c # cs \<Rightarrow>
          if to_lower c \<noteq> CHR ''e'' then None
          else let neg = (cs \<noteq> [] \<and> hd cs = CHR ''-'');
                   ds = (if cs \<noteq> [] \<and> hd cs \<in> {CHR ''+'', CHR ''-''} then tl cs else cs)
               in if ds = [] then None
                  else map_option (\<lambda>n. if neg then - int n else int n) (digits_from 0 ds))"

definition decimal_from_str :: "string \<Rightarrow> rat option" where
  "decimal_from_str s =
     (let ip = takeWhile is_digit s; r = dropWhile is_digit s;
          fp = (if r \<noteq> [] \<and> hd r = CHR ''.'' then takeWhile is_digit (tl r) else []);
          e = (if r \<noteq> [] \<and> hd r = CHR ''.'' then dropWhile is_digit (tl r) else r)
      in if ip = [] \<and> fp = [] then None
         else map_option
                (\<lambda>x. of_nat (digits_value (ip @ fp)) * 10 powi (x - int (length fp)))
                (exponent_from_str e))"

definition f64_from_str :: "string \<Rightarrow> f64 option" where
  "f64_from_str s =
     (let neg = (s \<noteq> [] \<and> hd s = CHR ''-'');
          t = (if s \<noteq> [] \<and> hd s \<in> {CHR ''+'', CHR ''-''} then tl s else s);
          l = map to_lower t
      in if l = ''nan'' then Some NaN
         else if l = ''inf'' \<or> l = ''infinity'' then Some (Infinity neg)
         else map_option (\<lambda>q. f64_of_rat (if neg then - q else q)) (decimal_from_str t))"

section \<open>Facts\<close>

lemma quotient_of_pos:
  assumes "0 < q" and "quotient_of q = (a, b)"
  shows "0 < a" "0 < b" "q = of_int a / of_int b"
proof -
  show b: "0 < b" using assms(2) by (rule quotient_of_denom_pos)
  show q: "q = of_int a / of_int b" using assms(2) by (rule quotient_of_div)
  with assms(1) b show "0 < a" by (simp add: zero_less_divide_iff)
qed

lemma bitlen_bounds_rat:
  assumes "0 < a"
  shows "2 powi (bitlen a - 1) \<le> (of_int a :: rat)" "(of_int a :: rat) < 2 powi bitlen a"
proof -
  define n where "n = nat (bitlen a)"
  have n: "bitlen a = int n" "0 < n"
    using bitlen_nonneg [of a] bitlen_eq_zero_iff [of a] assms by (auto simp: n_def)
  have bnd: "2 ^ (n - 1) \<le> a" "a < 2 ^ n"
    using bitlen_bounds [OF assms] n by (simp_all add: nat_diff_distrib)
  have "(2 :: rat) ^ (n - 1) \<le> of_int a"
    using bnd(1) of_int_le_iff [where 'a = rat, of "2 ^ (n - 1)" a] by simp
  moreover have "(of_int a :: rat) < 2 ^ n"
    using bnd(2) of_int_less_iff [where 'a = rat, of a "2 ^ n"] by simp
  moreover have "bitlen a - 1 = int (n - 1)" using n by simp
  ultimately show "2 powi (bitlen a - 1) \<le> (of_int a :: rat)" "(of_int a :: rat) < 2 powi bitlen a"
    by (simp_all only: n(1) power_int_of_nat)
qed

lemma ilog2_le:
  assumes "0 < q"
  shows "2 powi (ilog2 q) \<le> q"
proof -
  obtain a b where ab: "quotient_of q = (a, b)" by (cases "quotient_of q")
  note qp = quotient_of_pos [OF assms ab]
  have "2 powi (bitlen a - bitlen b - 1) = (2 powi (bitlen a - 1) :: rat) / 2 powi (bitlen b)"
    by (simp add: power_int_diff)
  also have "\<dots> \<le> of_int a / of_int b"
    using bitlen_bounds_rat [OF qp(1)] bitlen_bounds_rat [OF qp(2)] qp(1,2)
    by (intro frac_le) auto
  finally have "2 powi (bitlen a - bitlen b - 1) \<le> q" by (simp add: qp(3))
  then show ?thesis by (simp add: ilog2_def ab Let_def)
qed

lemma ulp_pos [simp]: "0 < ulp q" "0 \<le> ulp q"
  by (simp_all add: ulp_def)

lemma ulp_le_1:
  assumes "\<bar>q\<bar> < 2 ^ 53"
  shows "\<exists>k. ulp q = 1 / 2 ^ k"
proof (cases "q = 0")
  case True
  then show ?thesis by (auto simp: ulp_def intro: exI [of _ 0])
next
  case False
  have "(2 :: rat) powi (ilog2 \<bar>q\<bar>) < 2 powi 53"
    using ilog2_le [of "\<bar>q\<bar>"] False assms by simp
  then have "ilog2 \<bar>q\<bar> < 53"
    by (rule power_int_le_imp_less_exp [rotated 1]) simp_all
  then obtain k where "max (ilog2 \<bar>q\<bar> - 52) (-1074) = - int k"
    using that [of "nat (- max (ilog2 \<bar>q\<bar> - 52) (-1074))"] by simp
  then show ?thesis using False by (auto simp: ulp_def power_int_minus field_simps)
qed

lemma half_even_of_int [simp]: "half_even (of_int n) = n"
  by (simp add: half_even_def)

lemma half_even_nonneg: "0 \<le> q \<Longrightarrow> 0 \<le> half_even q"
  by (simp add: half_even_def Let_def)

lemma half_even_close: "\<bar>of_int (half_even q) - q\<bar> \<le> 1 / 2"
  unfolding half_even_def Let_def by (cases "even \<lfloor>q\<rfloor>") (simp_all add: abs_if; linarith)+

lemma f64_of_rat_of_int:
  assumes "\<bar>n\<bar> < 2 ^ 53"
  shows "f64_of_rat (of_int n) = Fin (of_int n)"
proof -
  have n: "\<bar>of_int n :: rat\<bar> < 2 ^ 53"
    using assms of_int_less_iff [where 'a = rat, of "\<bar>n\<bar>" "2 ^ 53"] by simp
  from ulp_le_1 [OF n] obtain k where k: "ulp (of_int n) = 1 / 2 ^ k" by blast
  have "of_int n / ulp (of_int n) = (of_int (n * 2 ^ k) :: rat)" by (simp add: k)
  then have "of_int (half_even (of_int n / ulp (of_int n))) * ulp (of_int n) = (of_int n :: rat)"
    by (simp only: half_even_of_int) (simp add: k)
  moreover have "\<bar>of_int n :: rat\<bar> < 2 ^ 1024" using n by simp
  ultimately show ?thesis by (simp add: f64_of_rat_def Let_def)
qed

lemma f64_of_rat_close:
  assumes "\<bar>q\<bar> \<le> 2 ^ 52"
  shows "\<exists>v. f64_of_rat q = Fin v \<and> \<bar>v - q\<bar> \<le> 1 / 2 \<and> (0 \<le> q \<longrightarrow> 0 \<le> v)"
proof -
  define v where "v = of_int (half_even (q / ulp q)) * ulp q"
  obtain k where k: "ulp q = 1 / 2 ^ k" using ulp_le_1 [of q] assms by auto
  have u: "0 < ulp q" "ulp q \<le> 1" by (simp_all add: k)
  have "v - q = (of_int (half_even (q / ulp q)) - q / ulp q) * ulp q"
    using ulp_pos(1) [of q] by (simp add: v_def left_diff_distrib less_imp_neq [THEN not_sym])
  then have "\<bar>v - q\<bar> = \<bar>of_int (half_even (q / ulp q)) - q / ulp q\<bar> * ulp q"
    by (simp add: abs_mult abs_of_pos)
  also have "\<dots> \<le> 1 / 2 * 1"
    using half_even_close [of "q / ulp q"] u by (intro mult_mono) auto
  finally have c: "\<bar>v - q\<bar> \<le> 1 / 2" by simp
  have "\<bar>v\<bar> \<le> \<bar>q\<bar> + \<bar>v - q\<bar>" by (simp add: abs_if)
  also have "\<dots> \<le> 2 ^ 52 + 1" using assms c by (intro add_mono) linarith+
  also have "(2 :: rat) ^ 52 + 1 < 2 ^ 53" by simp
  also have "(2 :: rat) ^ 53 \<le> 2 ^ 1024" by (rule power_increasing) simp_all
  finally have "\<bar>v\<bar> < 2 ^ 1024" .
  moreover have "0 \<le> v" if "0 \<le> q"
    using that u(1) half_even_nonneg [of "q / ulp q"] by (simp add: v_def)
  ultimately show ?thesis using c by (auto simp: f64_of_rat_def v_def Let_def)
qed

lemma scaled_bound: "0 \<le> scaled w k x" "scaled w k x < 2 ^ w"
proof -
  have "0 \<le> f64_as_uint w y \<and> f64_as_uint w y < 2 ^ w" for y
    by (cases y) auto
  then show "0 \<le> scaled w k x" "scaled w k x < 2 ^ w" by (simp_all add: scaled_def)
qed

text \<open>
  A non-negative finite interval whose product with the scale stays below
  \<open>2 ^ 52\<close> is converted with an error of at most one unit.
\<close>

lemma scaled_close:
  assumes "0 \<le> q" and "0 \<le> k" and "q * k \<le> 2 ^ 52" and "53 \<le> w"
  shows "\<bar>of_int (scaled w k (Fin q)) - q * k\<bar> \<le> 1"
proof -
  have "0 \<le> q * k" using assms by simp
  then obtain v where v: "f64_of_rat (q * k) = Fin v" "\<bar>v - q * k\<bar> \<le> 1 / 2" "0 \<le> v"
    using f64_of_rat_close [of "q * k"] assms(3) by auto
  define r where "r = \<lfloor>v + 1 / 2\<rfloor>"
  have r: "\<bar>of_int r - v\<bar> \<le> 1 / 2" "0 \<le> r"
    using v(3) by (simp_all add: r_def abs_if) linarith
  have "of_int r \<le> (2 ^ 52 + 1 :: rat)" using r(1) v(2) assms(3) by linarith
  then have "(of_int r :: rat) \<le> of_int (2 ^ 52 + 1)" by simp
  then have "r \<le> 2 ^ 52 + 1" by (simp only: of_int_le_iff)
  also have "\<dots> \<le> (2 :: int) ^ 53 - 1" by simp
  also have "\<dots> \<le> 2 ^ w - 1" using power_increasing [OF assms(4), of "2 :: int"] by simp
  finally have "scaled w k (Fin q) = r"
    using v(1,3) r(2) by (simp add: scaled_def r_def)
  then show ?thesis using r(1) v(2) by linarith
qed

end
