(* ===== verification/Script_Ast.thy ===== *)
theory Script_Ast
  imports Rust_F64
begin

text \<open>
  The syntax tree of the workload scripts (\<open>src/script/ast.rs\<close>), the parse trees
  the parser generator hands over, and which parse trees the grammar
  (\<open>src/script/grammar.peg\<close>) allows.
\<close>

section \<open>Syntax trees\<close>

datatype Arg =
    Const (text_of: string)
  | Var (name_of: string)
  | Dynamic (fn_of: string) (args_of: "Arg list")

datatype Instruction =
    Task Arg "Arg list"
  | Open Arg
  | Debug Arg
  | Ping Arg

datatype MachineInstruction =
    Server u16
  | Profile string
  | Path string

datatype Dist =
    Exp (rate: f64)
  | Zipf (frequency: f64) (zipf_exponent: f64)
  | Uniform_dist (dist_upper: f64) (dist_lower: f64)

datatype Node =
    is_Machine: Machine "MachineInstruction list"
  | is_Work: Work string "string \<rightharpoonup> string" "Instruction list" "Dist option"

section \<open>Parse trees\<close>

text \<open>The rules of the grammar, and pest's rule \<open>EOI\<close> for the end of the input.\<close>

datatype Rule =
    WHITESPACE | COMMENT | R_ident_char | R_ident | R_constant | R_randomPath | R_randomString | R_dynamicName | R_dynamic | R_arg
  | R_args | R_value | R_param | R_params | R_task | R_network | R_port | R_open | R_ping
  | R_debug | R_funcName | R_exp | R_zipf | R_uniform | R_distName | R_expr | R_opt | R_dist
  | R_work | R_instruction | R_instructions | R_function | R_server | R_load | R_memory
  | R_profile | R_path | R_mInstrName | R_machineInstruction | R_machine | R_file | EOI

text \<open>A \<open>pest::iterators::Pair\<close>: its rule, the text of its span and its inner pairs.\<close>

datatype pair = Pair (as_rule: Rule) (as_str: string) (into_inner: "pair list")

section \<open>The trees of the grammar\<close>

text \<open>
  What may stand inside a pair of each rule, read off the right-hand sides of
  \<open>grammar.peg\<close>: string literals and silent rules produce no pair, and an atomic
  rule (\<open>ident\<close>) has no inner pairs. Here for the list of the inner rules.
\<close>

definition optional :: "Rule \<Rightarrow> Rule list \<Rightarrow> bool" where
  "optional r rs \<longleftrightarrow> rs = [] \<or> rs = [r]"

definition one_of :: "Rule list \<Rightarrow> Rule list \<Rightarrow> bool" where
  "one_of alts rs \<longleftrightarrow> (case rs of [r] \<Rightarrow> r \<in> set alts | _ \<Rightarrow> False)"

definition many :: "Rule \<Rightarrow> Rule list \<Rightarrow> bool" where
  "many r rs \<longleftrightarrow> list_all (\<lambda>x. x = r) rs"

definition starts :: "Rule \<Rightarrow> (Rule list \<Rightarrow> bool) \<Rightarrow> Rule list \<Rightarrow> bool" where
  "starts r rest rs \<longleftrightarrow> (case rs of [] \<Rightarrow> False | x # xs \<Rightarrow> x = r \<and> rest xs)"

definition file_content :: "Rule list \<Rightarrow> bool" where
  "file_content rs \<longleftrightarrow> rs \<noteq> [] \<and> last rs = EOI \<and>
     (case butlast rs of
        [] \<Rightarrow> True
      | r # rest \<Rightarrow> (r = R_machine \<or> r = R_expr) \<and> many R_expr rest)"

fun content :: "Rule \<Rightarrow> Rule list \<Rightarrow> bool" where
  "content R_constant rs = optional R_value rs"
| "content R_dynamicName rs = one_of [R_randomPath, R_randomString] rs"
| "content R_dynamic rs = (rs = [R_dynamicName, R_args])"
| "content R_arg rs = one_of [R_dynamic, R_ident, R_constant] rs"
| "content R_args rs = many R_arg rs"
| "content R_param rs = (rs = [R_ident, R_value])"
| "content R_params rs = many R_param rs"
| "content R_funcName rs = one_of [R_task, R_network, R_port, R_open, R_ping, R_debug] rs"
| "content R_distName rs = one_of [R_exp, R_zipf, R_uniform] rs"
| "content R_expr rs = one_of [R_function, R_instruction] rs"
| "content R_opt rs = (rs = [R_ident, R_value])"
| "content R_dist rs = starts R_distName (many R_opt) rs"
| "content R_work rs = starts R_ident (optional R_params) rs"
| "content R_instruction rs = starts R_funcName (optional R_args) rs"
| "content R_instructions rs = many R_expr rs"
| "content R_function rs = starts R_work (starts R_instructions (optional R_dist)) rs"
| "content R_mInstrName rs = one_of [R_server, R_load, R_memory, R_profile, R_path] rs"
| "content R_machineInstruction rs = starts R_mInstrName (optional R_args) rs"
| "content R_machine rs = many R_machineInstruction rs"
| "content R_file rs = file_content rs"
| "content _ rs = (rs = [])"

fun conforms :: "pair \<Rightarrow> bool" where
  "conforms (Pair r s ps) = (content r (map as_rule ps) \<and> list_all conforms ps)"

section \<open>Inversion\<close>

text \<open>A conforming pair of each rule, as the tree it must be.\<close>

lemma conforms_iff:
  "conforms p \<longleftrightarrow> content (as_rule p) (map as_rule (into_inner p)) \<and> list_all conforms (into_inner p)"
  by (cases p) simp

lemma one_ofD: "one_of alts (map as_rule ps) \<Longrightarrow> \<exists>p. ps = [p] \<and> as_rule p \<in> set alts"
  by (cases ps rule: remdups_adj.cases) (auto simp: one_of_def)

lemma manyD: "many r (map as_rule ps) \<Longrightarrow> p \<in> set ps \<Longrightarrow> as_rule p = r"
  by (auto simp: many_def list_all_iff)

lemma optionalD: "optional r (map as_rule ps) \<Longrightarrow> ps = [] \<or> (\<exists>p. ps = [p] \<and> as_rule p = r)"
  by (auto simp: optional_def)

lemma startsD: "starts r rest (map as_rule ps) \<Longrightarrow>
    \<exists>p qs. ps = p # qs \<and> as_rule p = r \<and> rest (map as_rule qs)"
  by (cases ps) (auto simp: starts_def)

lemma conforms_innerD: "conforms p \<Longrightarrow> q \<in> set (into_inner p) \<Longrightarrow> conforms q"
  by (simp add: conforms_iff [of p] list_all_iff)

lemma conforms_expr:
  assumes "conforms p" and "as_rule p = R_expr"
  shows "\<exists>q. into_inner p = [q] \<and> conforms q \<and> (as_rule q = R_function \<or> as_rule q = R_instruction)"
  using assms by (auto simp: conforms_iff [of p] dest!: one_ofD)

lemma conforms_function:
  assumes "conforms p" and "as_rule p = R_function"
  shows "\<exists>w i ds. into_inner p = w # i # ds \<and> conforms w \<and> as_rule w = R_work \<and>
           conforms i \<and> as_rule i = R_instructions \<and>
           (ds = [] \<or> (\<exists>d. ds = [d] \<and> conforms d \<and> as_rule d = R_dist))"
  using assms by (auto simp: conforms_iff [of p] dest!: startsD optionalD)

lemma conforms_work:
  assumes "conforms p" and "as_rule p = R_work"
  shows "\<exists>n ps. into_inner p = n # ps \<and> as_rule n = R_ident \<and>
           (ps = [] \<or> (\<exists>q. ps = [q] \<and> conforms q \<and> as_rule q = R_params))"
  using assms by (auto simp: conforms_iff [of p] dest!: startsD optionalD)

lemma conforms_params:
  assumes "conforms p" and "as_rule p = R_params" and "q \<in> set (into_inner p)"
  shows "\<exists>k v. into_inner q = [k, v] \<and> as_rule k = R_ident \<and> as_rule v = R_value"
proof -
  have "as_rule q = R_param" using assms by (auto simp: conforms_iff [of p] dest: manyD)
  with conforms_innerD [OF assms(1,3)] show ?thesis by (auto simp: conforms_iff [of q])
qed

lemma conforms_instructions:
  assumes "conforms p" and "as_rule p = R_instructions" and "q \<in> set (into_inner p)"
  shows "conforms q \<and> as_rule q = R_expr"
  using assms conforms_innerD [OF assms(1,3)] by (auto simp: conforms_iff [of p] dest: manyD)

lemma conforms_instruction:
  assumes "conforms p" and "as_rule p = R_instruction"
  shows "\<exists>n f as. into_inner p = n # as \<and> into_inner n = [f] \<and>
           as_rule f \<in> {R_task, R_network, R_port, R_open, R_ping, R_debug} \<and>
           (as = [] \<or> (\<exists>a. as = [a] \<and> conforms a \<and> as_rule a = R_args))"
proof -
  from assms obtain n as where i: "into_inner p = n # as" "as_rule n = R_funcName" "conforms n"
    "as = [] \<or> (\<exists>a. as = [a] \<and> conforms a \<and> as_rule a = R_args)"
    by (auto simp: conforms_iff [of p] dest!: startsD optionalD)
  from i(2,3) obtain f where "into_inner n = [f]"
    "as_rule f \<in> {R_task, R_network, R_port, R_open, R_ping, R_debug}"
    by (auto simp: conforms_iff [of n] dest!: one_ofD)
  with i show ?thesis by blast
qed

lemma conforms_arg:
  assumes "conforms p" and "as_rule p = R_args" and "q \<in> set (into_inner p)"
  shows "as_rule q = R_arg \<and> (\<exists>a. into_inner q = [a] \<and> conforms a \<and>
           as_rule a \<in> {R_dynamic, R_ident, R_constant})"
proof -
  have r: "as_rule q = R_arg" using assms by (auto simp: conforms_iff [of p] dest: manyD)
  with conforms_innerD [OF assms(1,3)] show ?thesis
    by (auto simp: conforms_iff [of q] dest!: one_ofD)
qed

lemma conforms_dynamic:
  assumes "conforms p" and "as_rule p = R_dynamic"
  shows "\<exists>n a. into_inner p = [n, a] \<and> conforms a \<and> as_rule a = R_args \<and> into_inner n \<noteq> []"
proof -
  from assms obtain n a where i: "into_inner p = [n, a]" "as_rule n = R_dynamicName" "conforms n"
    "conforms a" "as_rule a = R_args"
    by (auto simp: conforms_iff [of p])
  from i(2,3) have "into_inner n \<noteq> []" by (auto simp: conforms_iff [of n] dest!: one_ofD)
  with i show ?thesis by blast
qed

lemma conforms_leaf:
  assumes "conforms p" and "as_rule p \<in> {R_ident, R_value}"
  shows "into_inner p = []"
  using assms by (auto simp: conforms_iff [of p])

lemma conforms_dist:
  assumes "conforms p" and "as_rule p = R_dist"
  shows "\<exists>n os. into_inner p = n # os \<and> as_rule n = R_distName \<and>
           (\<forall>q \<in> set os. as_rule q = R_opt \<and> (\<exists>k v. into_inner q = [k, v]))"
proof -
  from assms obtain n os where i: "into_inner p = n # os" "as_rule n = R_distName"
    "many R_opt (map as_rule os)" "list_all conforms os"
    by (auto simp: conforms_iff [of p] dest!: startsD)
  have "as_rule q = R_opt \<and> (\<exists>k v. into_inner q = [k, v])" if "q \<in> set os" for q
  proof -
    have "conforms q" using that i(4) by (simp add: list_all_iff)
    then show ?thesis using manyD [OF i(3) that] by (auto simp: conforms_iff [of q])
  qed
  with i show ?thesis by blast
qed

lemma conforms_machine:
  assumes "conforms p" and "as_rule p = R_machine" and "q \<in> set (into_inner p)"
  shows "\<exists>n f as. into_inner q = n # as \<and> into_inner n = [f] \<and>
           as_rule f \<in> {R_server, R_load, R_memory, R_profile, R_path} \<and>
           (as = [] \<or> (\<exists>a. as = [a] \<and> conforms a \<and> as_rule a = R_args))"
proof -
  have "as_rule q = R_machineInstruction" using assms by (auto simp: conforms_iff [of p] dest: manyD)
  with conforms_innerD [OF assms(1,3)] obtain n as where
    i: "into_inner q = n # as" "as_rule n = R_mInstrName" "conforms n"
    "as = [] \<or> (\<exists>a. as = [a] \<and> conforms a \<and> as_rule a = R_args)"
    by (auto simp: conforms_iff [of q] dest!: startsD optionalD)
  from i(2,3) obtain f where "into_inner n = [f]"
    "as_rule f \<in> {R_server, R_load, R_memory, R_profile, R_path}"
    by (auto simp: conforms_iff [of n] dest!: one_ofD)
  with i show ?thesis by blast
qed

end
