(* ===== verification/Peg.thy ===== *)
theory Peg
  imports Script_Ast
begin

text \<open>
  The grammar language of \<open>src/script/grammar.peg\<close>, as the pest book documents it:
  parsing expressions with ordered choice, greedy repetition, implicit
  whitespace between the parts of a sequence and of a repetition, and atomic
  and silent rules. A reference semantics as a relation, an interpreter with
  fuel, their equivalence, and a check of a grammar under which a given amount
  of fuel is always enough.
\<close>

section \<open>Parsing expressions\<close>

text \<open>
  \<open>Thn\<close> puts two expressions directly after each other and \<open>Skip\<close> is the implicit
  whitespace, so that the operators of the grammar language are built from them
  below. \<open>Rep\<close> is a repetition with implicit whitespace before each round.
\<close>

datatype peg =
    Lit string
  | Sat "char \<Rightarrow> bool"
  | Soi
  | Call Rule
  | Skip
  | Thn peg peg
  | Alt peg peg
  | Opt peg
  | Neg peg
  | Rep peg

definition Seq :: "peg \<Rightarrow> peg \<Rightarrow> peg" where
  "Seq a b = Thn a (Thn Skip b)"

definition Plus :: "peg \<Rightarrow> peg" where
  "Plus e = Thn e (Rep e)"

definition Star :: "peg \<Rightarrow> peg" where
  "Star e = Opt (Plus e)"

lemmas peg_ops = Seq_def Plus_def Star_def

datatype rule_kind = Normal | Silent | Atomic

record grammar =
  body :: "Rule \<Rightarrow> peg"
  kind :: "Rule \<Rightarrow> rule_kind"

text \<open>\<open>WHITESPACE\<close> and \<open>COMMENT\<close> are atomic whatever their modifier.\<close>

definition atomic_in :: "grammar \<Rightarrow> bool \<Rightarrow> Rule \<Rightarrow> bool" where
  "atomic_in G tight r \<longleftrightarrow> tight \<or> kind G r = Atomic \<or> r = WHITESPACE \<or> r = COMMENT"

definition implicit :: peg where
  "implicit = Thn (Star (Call WHITESPACE)) (Star (Thn (Call COMMENT) (Star (Call WHITESPACE))))"

text \<open>
  The pairs of a rule call: none of its own in an atomic rule or for a silent
  rule, else one pair with the text between the rests \<open>s\<close> and \<open>s'\<close> of the input.
\<close>

definition span :: "string \<Rightarrow> string \<Rightarrow> string" where
  "span s s' = take (length s - length s') s"

definition emit :: "grammar \<Rightarrow> bool \<Rightarrow> Rule \<Rightarrow> string \<Rightarrow> string \<Rightarrow> pair list \<Rightarrow> pair list" where
  "emit G tight r s s' ps = (if tight then [] else if kind G r = Silent then ps else [Pair r (span s s') ps])"

section \<open>The reference semantics\<close>

text \<open>
  \<open>derive G n tight e s r\<close>: on the rest \<open>s\<close> of a text of length \<open>n\<close>, in an atomic context
  iff \<open>tight\<close>, the expression fails (\<open>None\<close>) or gives pairs and a new rest.
\<close>

type_synonym result = "(pair list \<times> string) option"

inductive derive :: "grammar \<Rightarrow> nat \<Rightarrow> bool \<Rightarrow> peg \<Rightarrow> string \<Rightarrow> result \<Rightarrow> bool"
  for G :: grammar and n :: nat where
  d_lit: "derive G n tight (Lit l) (l @ s) (Some ([], s))"
| d_lit_no: "take (length l) s \<noteq> l \<Longrightarrow> derive G n tight (Lit l) s None"
| d_sat: "P c \<Longrightarrow> derive G n tight (Sat P) (c # s) (Some ([], s))"
| d_sat_no: "s = [] \<or> \<not> P (hd s) \<Longrightarrow> derive G n tight (Sat P) s None"
| d_soi: "length s = n \<Longrightarrow> derive G n tight Soi s (Some ([], s))"
| d_soi_no: "length s \<noteq> n \<Longrightarrow> derive G n tight Soi s None"
| d_call: "derive G n (atomic_in G tight r) (body G r) s (Some (ps, s')) \<Longrightarrow>
     derive G n tight (Call r) s (Some (emit G tight r s s' ps, s'))"
| d_call_no: "derive G n (atomic_in G tight r) (body G r) s None \<Longrightarrow> derive G n tight (Call r) s None"
| d_skip_at: "derive G n True Skip s (Some ([], s))"
| d_skip: "derive G n True implicit s r \<Longrightarrow> derive G n False Skip s r"
| d_thn: "derive G n tight a s (Some (ps, s1)) \<Longrightarrow> derive G n tight b s1 (Some (qs, s2)) \<Longrightarrow>
     derive G n tight (Thn a b) s (Some (ps @ qs, s2))"
| d_thn_no1: "derive G n tight a s None \<Longrightarrow> derive G n tight (Thn a b) s None"
| d_thn_no2: "derive G n tight a s (Some (ps, s1)) \<Longrightarrow> derive G n tight b s1 None \<Longrightarrow>
     derive G n tight (Thn a b) s None"
| d_alt1: "derive G n tight a s (Some x) \<Longrightarrow> derive G n tight (Alt a b) s (Some x)"
| d_alt2: "derive G n tight a s None \<Longrightarrow> derive G n tight b s r \<Longrightarrow> derive G n tight (Alt a b) s r"
| d_opt: "derive G n tight a s (Some x) \<Longrightarrow> derive G n tight (Opt a) s (Some x)"
| d_opt_no: "derive G n tight a s None \<Longrightarrow> derive G n tight (Opt a) s (Some ([], s))"
| d_neg: "derive G n tight a s None \<Longrightarrow> derive G n tight (Neg a) s (Some ([], s))"
| d_neg_no: "derive G n tight a s (Some x) \<Longrightarrow> derive G n tight (Neg a) s None"
| d_rep: "derive G n tight (Thn Skip a) s (Some (ps, s1)) \<Longrightarrow> derive G n tight (Rep a) s1 (Some (qs, s2)) \<Longrightarrow>
     derive G n tight (Rep a) s (Some (ps @ qs, s2))"
| d_rep_no: "derive G n tight (Thn Skip a) s None \<Longrightarrow> derive G n tight (Rep a) s (Some ([], s))"

inductive_cases derive_elims:
  "derive G n tight (Lit l) s r"
  "derive G n tight (Sat P) s r"
  "derive G n tight Soi s r"
  "derive G n tight (Call x) s r"
  "derive G n tight Skip s r"
  "derive G n tight (Thn a b) s r"
  "derive G n tight (Alt a b) s r"
  "derive G n tight (Opt a) s r"
  "derive G n tight (Neg a) s r"
  "derive G n tight (Rep a) s r"

section \<open>The interpreter\<close>

datatype outcome = Out_of_fuel | Done result

text \<open>Fuel is spent on rule calls, on implicit whitespace and on the rounds of a repetition.\<close>

fun run :: "grammar \<Rightarrow> nat \<Rightarrow> nat \<Rightarrow> bool \<Rightarrow> peg \<Rightarrow> string \<Rightarrow> outcome" where
  "run G n f tight (Lit l) s =
     Done (if take (length l) s = l then Some ([], drop (length l) s) else None)"
| "run G n f tight (Sat P) s =
     Done (case s of [] \<Rightarrow> None | c # s' \<Rightarrow> if P c then Some ([], s') else None)"
| "run G n f tight Soi s = Done (if length s = n then Some ([], s) else None)"
| "run G n 0 tight (Call r) s = Out_of_fuel"
| "run G n (Suc f) tight (Call r) s =
     (case run G n f (atomic_in G tight r) (body G r) s of
        Done (Some (ps, s')) \<Rightarrow> Done (Some (emit G tight r s s' ps, s'))
      | x \<Rightarrow> x)"
| "run G n f True Skip s = Done (Some ([], s))"
| "run G n 0 False Skip s = Out_of_fuel"
| "run G n (Suc f) False Skip s = run G n f True implicit s"
| "run G n f tight (Thn a b) s =
     (case run G n f tight a s of
        Done (Some (ps, s1)) \<Rightarrow>
          (case run G n f tight b s1 of
             Done (Some (qs, s2)) \<Rightarrow> Done (Some (ps @ qs, s2))
           | x \<Rightarrow> x)
      | x \<Rightarrow> x)"
| "run G n f tight (Alt a b) s =
     (case run G n f tight a s of Done None \<Rightarrow> run G n f tight b s | x \<Rightarrow> x)"
| "run G n f tight (Opt a) s =
     (case run G n f tight a s of Done None \<Rightarrow> Done (Some ([], s)) | x \<Rightarrow> x)"
| "run G n f tight (Neg a) s =
     (case run G n f tight a s of
        Out_of_fuel \<Rightarrow> Out_of_fuel | Done None \<Rightarrow> Done (Some ([], s)) | Done (Some x) \<Rightarrow> Done None)"
| "run G n 0 tight (Rep a) s = Out_of_fuel"
| "run G n (Suc f) tight (Rep a) s =
     (case run G n (Suc f) tight Skip s of
        Done (Some (ps, s1)) \<Rightarrow>
          (case run G n (Suc f) tight a s1 of
             Done (Some (qs, s2)) \<Rightarrow>
               (case run G n f tight (Rep a) s2 of
                  Done (Some (rs, s3)) \<Rightarrow> Done (Some ((ps @ qs) @ rs, s3))
                | x \<Rightarrow> x)
           | Done None \<Rightarrow> Done (Some ([], s))
           | Out_of_fuel \<Rightarrow> Out_of_fuel)
      | Done None \<Rightarrow> Done (Some ([], s))
      | Out_of_fuel \<Rightarrow> Out_of_fuel)"

section \<open>What the interpreter returns\<close>

lemma run_Call_Done:
  "run G n f tight (Call x) s = Done r \<longleftrightarrow> (\<exists>g. f = Suc g \<and>
     ((run G n g (atomic_in G tight x) (body G x) s = Done None \<and> r = None) \<or>
      (\<exists>ps s'. run G n g (atomic_in G tight x) (body G x) s = Done (Some (ps, s')) \<and>
         r = Some (emit G tight x s s' ps, s'))))"
  by (cases f) (auto split: outcome.splits option.splits)

lemma run_Skip_Done:
  "run G n f tight Skip s = Done r \<longleftrightarrow>
     (if tight then r = Some ([], s) else \<exists>g. f = Suc g \<and> run G n g True implicit s = Done r)"
  by (cases tight; cases f) auto

lemma run_Thn_Done:
  "run G n f tight (Thn a b) s = Done r \<longleftrightarrow>
     (run G n f tight a s = Done None \<and> r = None) \<or>
     (\<exists>ps s1. run G n f tight a s = Done (Some (ps, s1)) \<and>
        ((run G n f tight b s1 = Done None \<and> r = None) \<or>
         (\<exists>qs s2. run G n f tight b s1 = Done (Some (qs, s2)) \<and> r = Some (ps @ qs, s2))))"
  by (auto split: outcome.splits option.splits)

lemma run_Alt_Done:
  "run G n f tight (Alt a b) s = Done r \<longleftrightarrow>
     (run G n f tight a s = Done None \<and> run G n f tight b s = Done r) \<or>
     (\<exists>x. run G n f tight a s = Done (Some x) \<and> r = Some x)"
  by (auto split: outcome.splits option.splits)

lemma run_Opt_Done:
  "run G n f tight (Opt a) s = Done r \<longleftrightarrow>
     (run G n f tight a s = Done None \<and> r = Some ([], s)) \<or>
     (\<exists>x. run G n f tight a s = Done (Some x) \<and> r = Some x)"
  by (auto split: outcome.splits option.splits)

lemma run_Neg_Done:
  "run G n f tight (Neg a) s = Done r \<longleftrightarrow>
     (run G n f tight a s = Done None \<and> r = Some ([], s)) \<or>
     (\<exists>x. run G n f tight a s = Done (Some x) \<and> r = None)"
  by (auto split: outcome.splits option.splits)

lemma run_Rep_Done:
  "run G n (Suc g) tight (Rep a) s = Done r \<longleftrightarrow>
     (run G n (Suc g) tight (Thn Skip a) s = Done None \<and> r = Some ([], s)) \<or>
     (\<exists>ps s1. run G n (Suc g) tight (Thn Skip a) s = Done (Some (ps, s1)) \<and>
        ((run G n g tight (Rep a) s1 = Done None \<and> r = None) \<or>
         (\<exists>qs s2. run G n g tight (Rep a) s1 = Done (Some (qs, s2)) \<and> r = Some (ps @ qs, s2))))"
  unfolding run_Thn_Done by (auto simp del: run.simps simp: run.simps(14) split: outcome.splits option.splits)

lemma run_Rep_fuel: "run G n f tight (Rep a) s = Done r \<Longrightarrow> \<exists>g. f = Suc g"
  by (cases f) auto

lemmas run_Done = run_Call_Done run_Skip_Done run_Thn_Done run_Alt_Done run_Opt_Done run_Neg_Done

declare run.simps(4-14) [simp del]

section \<open>The interpreter and the reference semantics agree\<close>

lemma run_Suc: "run G n f tight e s = Done r \<Longrightarrow> run G n (Suc f) tight e s = Done r"
proof (induction f arbitrary: tight e s r rule: less_induct)
  case (less f)
  note fuel = less.IH
  have skip: "run G n f tight Skip s = Done r \<Longrightarrow> run G n (Suc f) tight Skip s = Done r" for tight s r
    using fuel by (cases f) (auto simp: run_Skip_Done split: if_splits)
  show ?case using less.prems
  proof (induction e arbitrary: tight s r)
    case (Call x)
    then obtain g where g: "f = Suc g" by (auto simp: run_Call_Done)
    with Call show ?case using fuel [of g] by (auto simp: run_Call_Done)
  next
    case Skip
    then show ?case by (rule skip)
  next
    case (Rep a)
    from run_Rep_fuel [OF Rep.prems] obtain g where g: "f = Suc g" ..
    have round: "run G n (Suc f) tight (Thn Skip a) s = Done x" if "run G n f tight (Thn Skip a) s = Done x" for x
      using that Rep.IH skip by (auto simp: run_Thn_Done)
    have more: "run G n (Suc g) tight (Rep a) s' = Done x" if "run G n g tight (Rep a) s' = Done x" for s' x
      using that fuel [of g] by (simp add: g)
    from Rep.prems [unfolded g run_Rep_Done] show ?case
      unfolding g run_Rep_Done [of _ _ "Suc g"] by (blast intro: round [unfolded g] more)
  qed (auto simp: run_Done)
qed

lemma run_mono: "f \<le> f' \<Longrightarrow> run G n f tight e s = Done r \<Longrightarrow> run G n f' tight e s = Done r"
  by (induction f' rule: dec_induct) (auto intro: run_Suc)

lemma derive_Rep_Some: "derive G n tight (Rep a) s r \<Longrightarrow> r \<noteq> None"
  by (induction "Rep a" s r rule: derive.induct) auto

lemma run_derive: "run G n f tight e s = Done r \<Longrightarrow> derive G n tight e s r"
proof (induction f arbitrary: tight e s r rule: less_induct)
  case (less f)
  note fuel = less.IH
  have skip: "run G n f tight Skip s = Done r \<Longrightarrow> derive G n tight Skip s r" for tight s r
    using fuel [of "f - 1" True implicit] by (cases f) (auto simp: run_Skip_Done intro: d_skip d_skip_at split: if_splits)
  show ?case using less.prems
  proof (induction e arbitrary: tight s r)
    case (Lit l)
    show ?case
    proof (cases "take (length l) s = l")
      case True
      then have "s = l @ drop (length l) s" by (metis append_take_drop_id)
      with True Lit d_lit [of G n tight l "drop (length l) s"] show ?thesis by simp
    qed (use Lit in \<open>auto intro: d_lit_no\<close>)
  next
    case (Sat P)
    then show ?case by (cases s) (auto intro!: d_sat d_sat_no split: if_splits)
  next
    case (Call x)
    then obtain g where "f = Suc g" by (auto simp: run_Call_Done)
    with Call show ?case using fuel [of g] by (auto simp: run_Call_Done intro: d_call d_call_no)
  next
    case Skip
    then show ?case by (rule skip)
  next
    case (Thn a b)
    then show ?case unfolding run_Thn_Done by (blast intro: d_thn d_thn_no1 d_thn_no2)
  next
    case (Rep a)
    from run_Rep_fuel [OF Rep.prems] obtain g where g: "f = Suc g" ..
    have round: "derive G n tight (Thn Skip a) s x" if "run G n f tight (Thn Skip a) s = Done x" for x
      using that unfolding run_Thn_Done by (blast intro: d_thn d_thn_no1 d_thn_no2 Rep.IH skip)
    have more: "derive G n tight (Rep a) s' x" if "run G n g tight (Rep a) s' = Done x" for s' x
      using that fuel [of g] by (simp add: g)
    from Rep.prems consider "run G n f tight (Thn Skip a) s = Done None" "r = Some ([], s)"
      | ps s1 x where "run G n f tight (Thn Skip a) s = Done (Some (ps, s1))" "run G n g tight (Rep a) s1 = Done x"
          "r = map_option (\<lambda>(qs, s2). (ps @ qs, s2)) x"
      unfolding g run_Rep_Done by auto
    then show ?case
    proof cases
      case 1
      with d_rep_no [OF round] show ?thesis by simp
    next
      case (2 ps s1 x)
      from derive_Rep_Some [OF more [OF 2(2)]] obtain qs s2 where "x = Some (qs, s2)" by auto
      with 2(3) d_rep [OF round [OF 2(1)]] more [OF 2(2)] show ?thesis by simp
    qed
  qed (auto simp: run_Done intro: derive.intros split: if_splits)
qed

lemma derive_run: "derive G n tight e s r \<Longrightarrow> \<exists>f. run G n f tight e s = Done r"
proof (induction rule: derive.induct)
  case (d_call tight x s ps s')
  then obtain f where "run G n f (atomic_in G tight x) (body G x) s = Done (Some (ps, s'))" by blast
  then show ?case by (intro exI [of _ "Suc f"]) (simp add: run_Call_Done)
next
  case (d_call_no tight x s)
  then obtain f where "run G n f (atomic_in G tight x) (body G x) s = Done None" by blast
  then show ?case by (intro exI [of _ "Suc f"]) (simp add: run_Call_Done)
next
  case (d_skip s r)
  then obtain f where "run G n f True implicit s = Done r" by blast
  then show ?case by (intro exI [of _ "Suc f"]) (simp add: run_Skip_Done)
next
  case (d_thn tight a s ps s1 b qs s2)
  then obtain f g where "run G n f tight a s = Done (Some (ps, s1))" "run G n g tight b s1 = Done (Some (qs, s2))" by blast
  then show ?case
    using run_mono [of f "max f g"] run_mono [of g "max f g"]
    by (intro exI [of _ "max f g"]) (simp add: run_Thn_Done)
next
  case (d_thn_no2 tight a s ps s1 b)
  then obtain f g where "run G n f tight a s = Done (Some (ps, s1))" "run G n g tight b s1 = Done None" by blast
  then show ?case
    using run_mono [of f "max f g"] run_mono [of g "max f g"]
    by (intro exI [of _ "max f g"]) (simp add: run_Thn_Done)
next
  case (d_alt2 tight a s b r)
  then obtain f g where "run G n f tight a s = Done None" "run G n g tight b s = Done r" by blast
  then show ?case
    using run_mono [of f "max f g"] run_mono [of g "max f g"]
    by (intro exI [of _ "max f g"]) (simp add: run_Alt_Done)
next
  case (d_rep tight a s ps s1 qs s2)
  then obtain f g where "run G n f tight (Thn Skip a) s = Done (Some (ps, s1))"
    "run G n g tight (Rep a) s1 = Done (Some (qs, s2))" by blast
  then show ?case
    using run_mono [of f "Suc (max f g)"] run_mono [of g "max f g"]
    by (intro exI [of _ "Suc (max f g)"]) (simp add: run_Rep_Done)
next
  case (d_rep_no tight a s)
  then obtain f where "run G n f tight (Thn Skip a) s = Done None" by blast
  then show ?case
    using run_mono [of f "Suc f"] by (intro exI [of _ "Suc f"]) (simp add: run_Rep_Done)
next
  case (d_sat_no s P tight)
  then show ?case by (cases s) auto
qed (auto simp: run_Done)

lemma derive_iff_run: "derive G n tight e s r \<longleftrightarrow> (\<exists>f. run G n f tight e s = Done r)"
  using run_derive derive_run by blast

lemma derive_deterministic:
  assumes "derive G n tight e s r" and "derive G n tight e s r'"
  shows "r = r'"
proof -
  from assms obtain f f' where "run G n f tight e s = Done r" "run G n f' tight e s = Done r'"
    by (auto simp: derive_iff_run)
  then show ?thesis
    using run_mono [of f "max f f'"] run_mono [of f' "max f f'"] by fastforce
qed

section \<open>Grammars that always answer\<close>

text \<open>
  \<open>consumes\<close>: a match is not empty, given the rules for which this holds.
  \<open>left_rank\<close>: how deep calls can nest before input is consumed, given a bound for
  each rule and \<open>sk\<close> for implicit whitespace. \<open>fits\<close>: ranks are at most \<open>K\<close> and every
  repeated expression consumes input.
\<close>

fun consumes :: "(Rule \<Rightarrow> bool) \<Rightarrow> peg \<Rightarrow> bool" where
  "consumes eats (Lit l) \<longleftrightarrow> l \<noteq> []"
| "consumes eats (Sat P) \<longleftrightarrow> True"
| "consumes eats (Call r) \<longleftrightarrow> eats r"
| "consumes eats (Thn a b) \<longleftrightarrow> consumes eats a \<or> consumes eats b"
| "consumes eats (Alt a b) \<longleftrightarrow> consumes eats a \<and> consumes eats b"
| "consumes eats _ \<longleftrightarrow> False"

fun left_rank :: "(Rule \<Rightarrow> bool) \<Rightarrow> (Rule \<Rightarrow> nat) \<Rightarrow> nat \<Rightarrow> bool \<Rightarrow> peg \<Rightarrow> nat" where
  "left_rank eats rank sk tight (Call r) = Suc (rank r)"
| "left_rank eats rank sk tight Skip = (if tight then 0 else sk)"
| "left_rank eats rank sk tight (Thn a b) =
     max (left_rank eats rank sk tight a) (if consumes eats a then 0 else left_rank eats rank sk tight b)"
| "left_rank eats rank sk tight (Alt a b) = max (left_rank eats rank sk tight a) (left_rank eats rank sk tight b)"
| "left_rank eats rank sk tight (Opt a) = left_rank eats rank sk tight a"
| "left_rank eats rank sk tight (Neg a) = left_rank eats rank sk tight a"
| "left_rank eats rank sk tight (Rep a) = Suc (max (if tight then 0 else sk) (left_rank eats rank sk tight a))"
| "left_rank eats rank sk tight _ = 0"

fun fits :: "(Rule \<Rightarrow> bool) \<Rightarrow> (Rule \<Rightarrow> nat) \<Rightarrow> nat \<Rightarrow> nat \<Rightarrow> bool \<Rightarrow> peg \<Rightarrow> bool" where
  "fits eats rank sk K tight (Thn a b) \<longleftrightarrow>
     fits eats rank sk K tight a \<and> fits eats rank sk K tight b \<and> left_rank eats rank sk tight b \<le> K"
| "fits eats rank sk K tight (Alt a b) \<longleftrightarrow> fits eats rank sk K tight a \<and> fits eats rank sk K tight b"
| "fits eats rank sk K tight (Opt a) \<longleftrightarrow> fits eats rank sk K tight a"
| "fits eats rank sk K tight (Neg a) \<longleftrightarrow> fits eats rank sk K tight a"
| "fits eats rank sk K tight (Rep a) \<longleftrightarrow> fits eats rank sk K tight a \<and> consumes eats a"
| "fits eats rank sk K tight _ \<longleftrightarrow> True"

lemma left_rank_tight: "left_rank eats rank sk True e \<le> left_rank eats rank sk tight e"
  by (induction e) auto

lemma fits_tight: "fits eats rank sk K tight e \<Longrightarrow> fits eats rank sk K True e"
  by (induction e) (auto intro: order_trans [OF left_rank_tight])

lemma derive_suffix: "derive G n tight e s (Some (ps, s')) \<Longrightarrow> length s' \<le> length s"
  by (induction e s "Some (ps, s')" arbitrary: ps s' rule: derive.induct) (auto simp: le_trans)

locale ranked_grammar =
  fixes G :: grammar and eats :: "Rule \<Rightarrow> bool" and rank :: "Rule \<Rightarrow> nat" and sk K :: nat
  assumes eats_body: "eats r \<Longrightarrow> consumes eats (body G r)"
    and rank_body: "left_rank eats rank sk (atomic_in G False r) (body G r) \<le> rank r"
    and fits_body: "fits eats rank sk K (atomic_in G False r) (body G r)"
    and rank_implicit: "left_rank eats rank sk True implicit < sk"
    and fits_implicit: "fits eats rank sk K True implicit"
    and K_pos: "0 < K"
begin

lemma derive_consumes:
  "derive G n tight e s r \<Longrightarrow> r = Some (ps, s') \<Longrightarrow> consumes eats e \<Longrightarrow> length s' < length s"
proof (induction arbitrary: ps s' rule: derive.induct)
  case (d_thn tight a s ps1 s1 b qs s2)
  then show ?case
    using derive_suffix [OF d_thn.hyps(1)] derive_suffix [OF d_thn.hyps(2)] by fastforce
qed (auto dest: eats_body)

lemma body_ready:
  "left_rank eats rank sk (atomic_in G tight r) (body G r) \<le> rank r"
  "fits eats rank sk K (atomic_in G tight r) (body G r)"
  using rank_body [of r] fits_body [of r] left_rank_tight [of eats rank sk "body G r" "atomic_in G False r"]
    fits_tight [of eats rank sk K "atomic_in G False r" "body G r"]
  by (cases tight; force simp: atomic_in_def)+

lemma shorter: "run G n f tight a s = Done (Some (ps, s1)) \<Longrightarrow> length s1 * K \<le> length s * K"
  using derive_suffix [OF run_derive] by (intro mult_le_mono1) blast

lemma shorter_consumes:
  assumes "run G n f tight a s = Done (Some (ps, s1))" and "consumes eats a"
  shows "length s1 * K + K \<le> length s * K"
  using derive_consumes [OF run_derive [OF assms(1)] refl assms(2)]
    mult_le_mono1 [of "Suc (length s1)" "length s" K] by simp

lemma rest_fuel:
  assumes "run G n f tight a s = Done (Some (ps, s1))"
    and "length s * K + (if consumes eats a then 0 else m) \<le> f" and "m \<le> K"
  shows "length s1 * K + m \<le> f"
proof (cases "consumes eats a")
  case True
  with shorter_consumes [OF assms(1)] assms(2,3) show ?thesis by simp
next
  case False
  with assms(2) have "length s * K + m \<le> f" by simp
  with shorter [OF assms(1)] show ?thesis by linarith
qed

lemma Thn_answers:
  assumes "\<exists>r. run G n f tight a s = Done r"
    and "\<And>ps s1. run G n f tight a s = Done (Some (ps, s1)) \<Longrightarrow> \<exists>r. run G n f tight b s1 = Done r"
  shows "\<exists>r. run G n f tight (Thn a b) s = Done r"
  using assms by (metis not_Some_eq run_Thn_Done surj_pair)

lemma Rep_answers:
  assumes "\<exists>r. run G n (Suc g) tight (Thn Skip a) s = Done r"
    and "\<And>ps s1. run G n (Suc g) tight (Thn Skip a) s = Done (Some (ps, s1)) \<Longrightarrow>
           \<exists>r. run G n g tight (Rep a) s1 = Done r"
  shows "\<exists>r. run G n (Suc g) tight (Rep a) s = Done r"
  unfolding run_Rep_Done using assms by (metis not_Some_eq surj_pair)

lemma enough_fuel:
  "fits eats rank sk K tight e \<Longrightarrow> length s * K + left_rank eats rank sk tight e \<le> f \<Longrightarrow>
     \<exists>r. run G n f tight e s = Done r"
proof (induction f arbitrary: tight e s rule: less_induct)
  case (less f)
  note fuel = less.IH
  have skip: "\<exists>r. run G n f tight Skip s = Done r" if "length s * K + (if tight then 0 else sk) \<le> f" for tight s
  proof (cases tight)
    case False
    with that rank_implicit obtain g where g: "f = Suc g" by (cases f) auto
    have "length s * K + left_rank eats rank sk True implicit \<le> g"
      using that False rank_implicit by (simp add: g)
    from fuel [OF _ fits_implicit this] g False show ?thesis by (auto simp: run_Skip_Done)
  qed (simp add: run_Skip_Done)
  show ?case using less.prems
  proof (induction e arbitrary: tight s)
    case (Call x)
    then obtain g where g: "f = Suc g" by (cases f) auto
    have "length s * K + left_rank eats rank sk (atomic_in G tight x) (body G x) \<le> g"
      using Call.prems(2) body_ready(1) [of tight x] by (simp add: g)
    from fuel [OF _ body_ready(2) this] g obtain r where "run G n g (atomic_in G tight x) (body G x) s = Done r" by auto
    with g show ?case by (cases r) (auto simp: run_Call_Done)
  next
    case Skip
    then show ?case by (intro skip) simp
  next
    case (Thn a b)
    show ?case
      using Thn.prems rest_fuel [of n f tight a s _ _ "left_rank eats rank sk tight b"]
      by (intro Thn_answers Thn.IH) auto
  next
    case (Rep a)
    then obtain g where g: "f = Suc g" by (cases f) auto
    from Rep.prems(2) have "length s * K + left_rank eats rank sk tight a \<le> f" by simp
    then have "length s1 * K + left_rank eats rank sk tight a \<le> f"
      if "run G n f tight Skip s = Done (Some (ps, s1))" for ps s1
      using shorter [OF that] by linarith
    with Rep.prems have round: "\<exists>r. run G n f tight (Thn Skip a) s = Done r"
      by (intro Thn_answers skip Rep.IH) simp_all
    have "length s1 * K + left_rank eats rank sk tight (Rep a) \<le> g"
      if "run G n f tight (Thn Skip a) s = Done (Some (ps, s1))" for ps s1
      using shorter_consumes [OF that] Rep.prems K_pos by (simp add: g)
    with fuel [OF _ Rep.prems(1)] round show ?case
      unfolding g by (intro Rep_answers) auto
  next
    case (Alt a b)
    then have "\<exists>r. run G n f tight a s = Done r" "\<exists>r. run G n f tight b s = Done r" by simp_all
    then show ?case unfolding run_Alt_Done by (metis not_Some_eq)
  next
    case (Opt a)
    then have "\<exists>r. run G n f tight a s = Done r" by simp
    then show ?case unfolding run_Opt_Done by (metis not_Some_eq)
  next
    case (Neg a)
    then have "\<exists>r. run G n f tight a s = Done r" by simp
    then show ?case unfolding run_Neg_Done by (metis not_Some_eq)
  qed simp_all
qed

lemma derive_total: "fits eats rank sk K tight e \<Longrightarrow> \<exists>r. derive G n tight e s r"
  using enough_fuel run_derive by blast

end

section \<open>The shape of the pairs\<close>

text \<open>Which rules the pairs of a match belong to, and pairs whose inner pairs are of that shape throughout.\<close>

inductive shape :: "grammar \<Rightarrow> peg \<Rightarrow> Rule list \<Rightarrow> bool" for G :: grammar where
  sh_lit: "shape G (Lit l) []"
| sh_sat: "shape G (Sat P) []"
| sh_soi: "shape G Soi []"
| sh_skip: "shape G Skip []"
| sh_neg: "shape G (Neg e) []"
| sh_call: "kind G r \<noteq> Silent \<Longrightarrow> shape G (Call r) [r]"
| sh_silent: "kind G r = Silent \<Longrightarrow> \<not> atomic_in G False r \<Longrightarrow> shape G (body G r) rs \<Longrightarrow> shape G (Call r) rs"
| sh_hidden: "kind G r = Silent \<Longrightarrow> atomic_in G False r \<Longrightarrow> shape G (Call r) []"
| sh_thn: "shape G a rs \<Longrightarrow> shape G b qs \<Longrightarrow> shape G (Thn a b) (rs @ qs)"
| sh_alt1: "shape G a rs \<Longrightarrow> shape G (Alt a b) rs"
| sh_alt2: "shape G b rs \<Longrightarrow> shape G (Alt a b) rs"
| sh_opt: "shape G a rs \<Longrightarrow> shape G (Opt a) rs"
| sh_opt_no: "shape G (Opt a) []"
| sh_rep: "shape G a rs \<Longrightarrow> shape G (Rep a) qs \<Longrightarrow> shape G (Rep a) (rs @ qs)"
| sh_rep_no: "shape G (Rep a) []"

inductive_simps shape_simps [simp]:
  "shape G (Lit l) rs"
  "shape G (Sat P) rs"
  "shape G Soi rs"
  "shape G Skip rs"
  "shape G (Neg e) rs"
  "shape G (Call r) rs"
  "shape G (Thn a b) rs"
  "shape G (Alt a b) rs"
  "shape G (Opt a) rs"

fun typed :: "grammar \<Rightarrow> pair \<Rightarrow> bool" where
  "typed G (Pair r s ps) \<longleftrightarrow>
     (if atomic_in G False r then ps = [] else shape G (body G r) (map as_rule ps)) \<and> list_all (typed G) ps"

lemma derive_tight: "derive G n tight e s r \<Longrightarrow> tight \<Longrightarrow> r = Some (ps, s') \<Longrightarrow> ps = []"
  by (induction arbitrary: ps s' rule: derive.induct) (auto simp: atomic_in_def emit_def)

lemma derive_typed:
  "derive G n tight e s r \<Longrightarrow> \<not> tight \<Longrightarrow> r = Some (ps, s') \<Longrightarrow>
     shape G e (map as_rule ps) \<and> list_all (typed G) ps"
proof (induction arbitrary: ps s' rule: derive.induct)
  case (d_call tight x s ps1 s1)
  then show ?case
    using derive_tight [OF d_call.hyps]
    by (cases "atomic_in G False x") (auto simp: emit_def split: if_splits)
next
  case (d_skip s r)
  then show ?case using derive_tight [OF d_skip.hyps] by simp
next
  case (d_rep tight a s ps1 s1 qs s2)
  then show ?case by (auto intro!: sh_rep)
next
  case (d_thn tight a s ps1 s1 b qs s2)
  then show ?case by (auto simp del: shape_simps intro!: sh_thn)
qed (auto intro: sh_rep_no)

end
