(* ===== verification/Script_Grammar.thy ===== *)
theory Script_Grammar
  imports Peg
begin

text \<open>
  \<open>src/script/grammar.peg\<close>, rule by rule, in the order of the file, and what its
  matches look like: the recogniser always answers, and every pair it returns is
  one that the translation of \<open>src/script/parser.rs\<close> expects.
\<close>

section \<open>The grammar\<close>

text \<open>
  The built-in character classes. The text is the sequence of its bytes; \<open>ANY\<close>, which
  matches one character, is only used to skip to the end of a line, where
  skipping characters and skipping bytes is the same.
\<close>

definition ascii_digit :: "char \<Rightarrow> bool" where
  "ascii_digit c \<longleftrightarrow> c \<in> set ''0123456789''"

definition ascii_alpha :: "char \<Rightarrow> bool" where
  "ascii_alpha c \<longleftrightarrow> c \<in> set ''abcdefghijklmnopqrstuvwxyzABCDEFGHIJKLMNOPQRSTUVWXYZ''"

definition ANY :: peg where
  "ANY = Sat (\<lambda>_. True)"

definition NEWLINE :: peg where
  "NEWLINE = Alt (Lit [CHR 0x0A]) (Alt (Lit [CHR 0x0D, CHR 0x0A]) (Lit [CHR 0x0D]))"

text \<open>\<open>a ~ b ~ c\<close> and \<open>a | b | c\<close>\<close>

fun seqs :: "peg list \<Rightarrow> peg" where
  "seqs [] = Lit []"
| "seqs [e] = e"
| "seqs (e # es) = Seq e (seqs es)"

fun alts :: "peg list \<Rightarrow> peg" where
  "alts [] = Neg (Lit [])"
| "alts [e] = e"
| "alts (e # es) = Alt e (alts es)"

text \<open>\<open>"(" ~ (item ~ ("," ~ item)* ~ ","?)? ~ ")"\<close>\<close>

definition listing :: "Rule \<Rightarrow> peg" where
  "listing r = seqs [Lit ''('',
     Opt (seqs [Call r, Star (seqs [Lit '','', Call r]), Opt (Lit '','')]), Lit '')'']"

fun script_body :: "Rule \<Rightarrow> peg" where
  "script_body WHITESPACE = alts [Lit '' '', Lit [CHR 0x09], NEWLINE]"
| "script_body COMMENT = seqs [Lit ''//'', Star (seqs [Neg NEWLINE, ANY])]"
| "script_body R_ident_char = alts [Sat ascii_alpha, Lit ''_'', Lit ''$'']"
| "script_body R_ident = seqs [Call R_ident_char, Star (alts [Sat ascii_digit, Call R_ident_char])]"
| "script_body R_constant =
     alts [seqs [Lit [CHR 0x22], Call R_value, Lit [CHR 0x22]], Plus (Sat ascii_digit)]"
| "script_body R_randomPath = Lit ''random_path''"
| "script_body R_randomString = Lit ''random_string''"
| "script_body R_dynamicName = alts [Call R_randomPath, Call R_randomString]"
| "script_body R_dynamic = seqs [Call R_dynamicName, Call R_args]"
| "script_body R_arg = alts [Call R_dynamic, Call R_ident, Call R_constant]"
| "script_body R_args = listing R_arg"
| "script_body R_value =
     Star (alts [Sat (\<lambda>c. ascii_alpha c \<or> ascii_digit c), Lit ''.'', Lit '' '', Lit ''/'', Lit '':''])"
| "script_body R_param = seqs [Call R_ident, Lit ''='', Call R_value]"
| "script_body R_params = listing R_param"
| "script_body R_task = Lit ''task''"
| "script_body R_network = Lit ''network''"
| "script_body R_port = Lit ''port''"
| "script_body R_open = Lit ''open''"
| "script_body R_ping = Lit ''ping''"
| "script_body R_debug = Lit ''debug''"
| "script_body R_funcName =
     alts [Call R_task, Call R_network, Call R_port, Call R_open, Call R_ping, Call R_debug]"
| "script_body R_exp = Lit ''exp''"
| "script_body R_zipf = Lit ''zipf''"
| "script_body R_uniform = Lit ''uniform''"
| "script_body R_distName = alts [Call R_exp, Call R_zipf, Call R_uniform]"
| "script_body R_expr = alts [Call R_function, Call R_instruction]"
| "script_body R_opt = seqs [Call R_ident, Lit ''='', Call R_value, Lit '';'']"
| "script_body R_dist = seqs [Lit '':'', Call R_distName, Lit ''{'', Star (Call R_opt), Lit ''}'']"
| "script_body R_work = seqs [Call R_ident, Opt (Call R_params)]"
| "script_body R_instruction = seqs [Call R_funcName, Opt (Call R_args), Lit '';'']"
| "script_body R_instructions = Star (Call R_expr)"
| "script_body R_function =
     seqs [Call R_work, Lit ''{'', Call R_instructions, Lit ''}'', Opt (Call R_dist)]"
| "script_body R_server = Lit ''server''"
| "script_body R_load = Lit ''load''"
| "script_body R_memory = Lit ''memory''"
| "script_body R_profile = Lit ''profile''"
| "script_body R_path = Lit ''path''"
| "script_body R_mInstrName =
     alts [Call R_server, Call R_load, Call R_memory, Call R_profile, Call R_path]"
| "script_body R_machineInstruction = seqs [Call R_mInstrName, Opt (Call R_args), Lit '';'']"
| "script_body R_machine = seqs [Lit ''machine'', Lit ''{'', Star (Call R_machineInstruction), Lit ''}'']"
| "script_body R_file = seqs [Soi, Opt (Call R_machine), Star (Call R_expr), Call EOI]"
| "script_body EOI = Neg ANY"

fun script_kind :: "Rule \<Rightarrow> rule_kind" where
  "script_kind WHITESPACE = Silent"
| "script_kind COMMENT = Silent"
| "script_kind R_ident = Atomic"
| "script_kind _ = Normal"

definition script_grammar :: grammar where
  "script_grammar = \<lparr>body = script_body, kind = script_kind\<rparr>"

lemma script_grammar_simps [simp]:
  "body script_grammar = script_body" "kind script_grammar = script_kind"
  by (simp_all add: script_grammar_def)

section \<open>The grammar always answers\<close>

fun script_eats :: "Rule \<Rightarrow> bool" where
  "script_eats R_value = False"
| "script_eats R_instructions = False"
| "script_eats R_file = False"
| "script_eats EOI = False"
| "script_eats _ = True"

fun script_rank :: "Rule \<Rightarrow> nat" where
  "script_rank R_ident = 1"
| "script_rank R_dynamicName = 1"
| "script_rank R_dynamic = 2"
| "script_rank R_arg = 3"
| "script_rank R_param = 2"
| "script_rank R_funcName = 1"
| "script_rank R_distName = 1"
| "script_rank R_expr = 4"
| "script_rank R_opt = 2"
| "script_rank R_work = 2"
| "script_rank R_instruction = 2"
| "script_rank R_instructions = 5"
| "script_rank R_function = 3"
| "script_rank R_mInstrName = 1"
| "script_rank R_machineInstruction = 2"
| "script_rank R_file = 5"
| "script_rank _ = 0"

lemmas grammar_ops = peg_ops listing_def NEWLINE_def ANY_def

interpretation script: ranked_grammar script_grammar script_eats script_rank 4 6
proof unfold_locales
  fix r
  show "script_eats r \<Longrightarrow> consumes script_eats (body script_grammar r)"
    by (cases r) (simp_all add: grammar_ops)
  show "left_rank script_eats script_rank 4 (atomic_in script_grammar False r) (body script_grammar r) \<le> script_rank r"
    by (cases r) (simp_all add: grammar_ops atomic_in_def)
  show "fits script_eats script_rank 4 6 (atomic_in script_grammar False r) (body script_grammar r)"
    by (cases r) (simp_all add: grammar_ops atomic_in_def)
qed (simp_all add: implicit_def grammar_ops)

text \<open>The recogniser of the generated parser: \<open>InstructionParser::parse(Rule::file, source)\<close>.\<close>

definition script_fuel :: "string \<Rightarrow> nat" where
  "script_fuel s = length s * 6 + 6"

definition grammar_parse :: "string \<Rightarrow> pair option" where
  "grammar_parse s =
     (case run script_grammar (length s) (script_fuel s) False (Call R_file) s of
        Done (Some ([p], rest)) \<Rightarrow> Some p
      | _ \<Rightarrow> None)"

section \<open>The pairs of the grammar\<close>

lemma shape_rep_call: "shape G (Rep e) rs \<Longrightarrow> e = Call r \<Longrightarrow> kind G r \<noteq> Silent \<Longrightarrow> many r rs"
  by (induction "Rep e" rs rule: shape.induct) (auto simp: many_def)

lemma shape_star_call: "shape G (Star (Call r)) rs \<Longrightarrow> kind G r \<noteq> Silent \<Longrightarrow> many r rs"
  by (auto simp: peg_ops many_def dest: shape_rep_call)

lemma shape_rep_item:
  "shape G (Rep e) rs \<Longrightarrow> e = Thn (Lit l) (Thn Skip (Call r)) \<Longrightarrow> kind G r \<noteq> Silent \<Longrightarrow> many r rs"
  by (induction "Rep e" rs rule: shape.induct) (auto simp: many_def)

lemma shape_listing:
  assumes "shape G (listing r) rs" and "kind G r \<noteq> Silent"
  shows "many r rs"
  using assms by (auto simp: listing_def peg_ops many_def dest: shape_rep_item)

text \<open>An expression without rule calls gives no pairs.\<close>

fun callless :: "peg \<Rightarrow> bool" where
  "callless (Call r) \<longleftrightarrow> False"
| "callless (Thn a b) \<longleftrightarrow> callless a \<and> callless b"
| "callless (Alt a b) \<longleftrightarrow> callless a \<and> callless b"
| "callless (Opt a) \<longleftrightarrow> callless a"
| "callless (Rep a) \<longleftrightarrow> callless a"
| "callless _ \<longleftrightarrow> True"

lemma callless_ops [simp]:
  "callless (Seq a b) \<longleftrightarrow> callless a \<and> callless b" "callless (Plus a) \<longleftrightarrow> callless a"
  "callless (Star a) \<longleftrightarrow> callless a"
  by (auto simp: peg_ops)

lemma shape_callless: "shape G e rs \<Longrightarrow> callless e \<Longrightarrow> rs = []"
  by (induction rule: shape.induct) auto

lemma shape_Seq [simp]: "shape G (Seq a b) rs \<longleftrightarrow> (\<exists>xs ys. rs = xs @ ys \<and> shape G a xs \<and> shape G b ys)"
  by (auto simp: Seq_def)

lemma content_leaf: "callless (script_body r) \<Longrightarrow> shape script_grammar (script_body r) rs \<Longrightarrow> content r rs"
  by (drule (1) shape_callless) (cases r; simp add: grammar_ops)

lemma content_file:
  assumes "shape script_grammar (script_body R_file) rs"
  shows "content R_file rs"
proof -
  from assms consider ys where "rs = ys @ [EOI]" "shape script_grammar (Star (Call R_expr)) ys"
    | ys where "rs = R_machine # ys @ [EOI]" "shape script_grammar (Star (Call R_expr)) ys" by auto
  then show ?thesis
  proof cases
    case (1 ys)
    have "many R_expr ys" using 1(2) by (rule shape_star_call) simp
    with 1(1) show ?thesis by (cases ys) (simp_all add: file_content_def butlast_append many_def)
  next
    case (2 ys)
    have "many R_expr ys" using 2(2) by (rule shape_star_call) simp
    with 2(1) show ?thesis by (simp add: file_content_def butlast_append)
  qed
qed

lemma shape_content:
  assumes "shape script_grammar (script_body r) rs" and "\<not> atomic_in script_grammar False r"
  shows "content r rs"
proof (cases "callless (script_body r) \<or> r = R_file")
  case True
  with content_leaf content_file assms(1) show ?thesis by blast
next
  case False
  have digits: "qs = []" if "shape script_grammar (Plus (Sat ascii_digit)) qs" for qs
    using shape_callless [OF that] by (simp add: Plus_def)
  from False assms show ?thesis
    by (cases r) (auto simp: atomic_in_def one_of_def starts_def optional_def
        dest!: shape_star_call shape_listing digits)
qed

lemma typed_conforms: "typed script_grammar p \<Longrightarrow> conforms p"
proof (induction p)
  case (Pair r s ps)
  have "list_all conforms ps" using Pair by (auto simp: list_all_iff)
  moreover have "content r (map as_rule ps)"
  proof (cases "atomic_in script_grammar False r")
    case True
    then have "r = WHITESPACE \<or> r = COMMENT \<or> r = R_ident" by (cases r) (simp_all add: atomic_in_def)
    with True Pair.prems show ?thesis by auto
  next
    case False
    with Pair.prems shape_content [of r] show ?thesis by simp
  qed
  ultimately show ?case by simp
qed

section \<open>What the recogniser returns\<close>

lemma file_consumes_all:
  assumes "derive script_grammar n False (Call R_file) s (Some (ps, rest))"
  shows "rest = [] \<and> (\<exists>qs. ps = [Pair R_file s qs])"
proof -
  from assms obtain qs where b: "derive script_grammar n False (script_body R_file) s (Some (qs, rest))"
    and ps: "ps = emit script_grammar False R_file s rest qs"
    by (auto simp: atomic_in_def elim: derive_elims)
  from b obtain s1 rs where "derive script_grammar n False (Call EOI) s1 (Some (rs, rest))"
    by (auto simp: Seq_def elim!: derive_elims(6))
  then obtain us where "derive script_grammar n False (Neg ANY) s1 (Some (us, rest))"
    by (auto simp: atomic_in_def elim: derive_elims(4))
  then have "derive script_grammar n False (Sat (\<lambda>_. True)) rest None"
    by (auto simp: ANY_def elim: derive_elims(9))
  then have "rest = []" by (auto elim: derive_elims(2))
  with ps show ?thesis by (auto simp: emit_def span_def)
qed

lemma file_answers: "\<exists>r. run script_grammar n (script_fuel s) False (Call R_file) s = Done r"
  by (rule script.enough_fuel) (simp_all add: script_fuel_def)

lemma grammar_parse_derive:
  "grammar_parse s = Some p \<longleftrightarrow> derive script_grammar (length s) False (Call R_file) s (Some ([p], []))"
  "grammar_parse s = None \<longleftrightarrow> derive script_grammar (length s) False (Call R_file) s None"
proof -
  from file_answers [of "length s" s] obtain r where
    r: "run script_grammar (length s) (script_fuel s) False (Call R_file) s = Done r" ..
  note d = run_derive [OF r]
  have iff: "derive script_grammar (length s) False (Call R_file) s x \<longleftrightarrow> x = r" for x
    using d derive_deterministic [OF d] by blast
  show "grammar_parse s = Some p \<longleftrightarrow> derive script_grammar (length s) False (Call R_file) s (Some ([p], []))"
    "grammar_parse s = None \<longleftrightarrow> derive script_grammar (length s) False (Call R_file) s None"
    unfolding iff using file_consumes_all [of "length s" s] d
    by (cases r; fastforce simp: grammar_parse_def r)+
qed

lemma parsed_pair:
  assumes "grammar_parse s = Some p"
  shows "conforms p" and "as_rule p = R_file" and "as_str p = s"
proof -
  from assms have d: "derive script_grammar (length s) False (Call R_file) s (Some ([p], []))"
    by (simp add: grammar_parse_derive)
  from derive_typed [OF d] show "conforms p" by (auto intro: typed_conforms)
  from file_consumes_all [OF d] show "as_rule p = R_file" "as_str p = s" by auto
qed

section \<open>Properties\<close>

text \<open>
  C21: whatever the text, the interpreter of the grammar answers within six units of
  fuel per character and six more, for every rule of the grammar, and more fuel
  does not change the answer: the grammar has no left recursion and repeats
  nothing that matches the empty text.
\<close>

theorem grammar_always_answers:
  "\<exists>r. run script_grammar n (length s * 6 + 6) False (Call x) s = Done r \<and>
       (\<forall>f. run script_grammar n (length s * 6 + 6 + f) False (Call x) s = Done r)"
proof -
  have "script_rank x \<le> 5" by (cases x) simp_all
  then obtain r where r: "run script_grammar n (length s * 6 + 6) False (Call x) s = Done r"
    using script.enough_fuel [of False "Call x" s "length s * 6 + 6" n] by auto
  with run_mono [OF le_add1 r] show ?thesis by blast
qed

text \<open>
  The recogniser computes the reference semantics of the grammar: it returns a
  pair exactly when one can be derived from the rule \<open>file\<close>, and nothing exactly
  when the rule can be derived to fail; no text has two readings.
\<close>

lemma recogniser_is_reference:
  "(grammar_parse s = Some p \<longleftrightarrow> derive script_grammar (length s) False (Call R_file) s (Some ([p], []))) \<and>
   (grammar_parse s = None \<longleftrightarrow> derive script_grammar (length s) False (Call R_file) s None)"
  using grammar_parse_derive by blast

text \<open>
  C20: every pair the grammar yields is one the translation expects: a \<open>file\<close> pair
  over the whole text, and below every pair just the inner pairs listed for its
  rule.
\<close>

theorem grammar_pairs_conform:
  assumes "grammar_parse s = Some p"
  shows "conforms p \<and> as_rule p = R_file \<and> as_str p = s"
  using parsed_pair [OF assms] by simp

definition small_script :: string where
  "small_script = ''main(){open('' @ [CHR 0x22] @ ''/tmp'' @ [CHR 0x22] @ '');}''"

lemma small_script_parses: "\<exists>p. grammar_parse small_script = Some p"
proof -
  have "(case grammar_parse small_script of Some p \<Rightarrow> True | None \<Rightarrow> False)" by code_simp
  then show ?thesis by (auto split: option.splits)
qed

theorem grammar_pairs_conform_witness:
  "\<exists>p. grammar_parse small_script = Some p \<and> conforms p \<and> as_rule p = R_file \<and> as_str p = small_script"
  using small_script_parses grammar_pairs_conform by blast

end
