(* ===== verification/Script_Parser.thy ===== *)
theory Script_Parser
  imports Script_Ast
begin

text \<open>
  The translation of parse trees into syntax trees: \<open>src/script/parser.rs\<close>, one
  definition per function, every \<open>expect\<close>, \<open>unwrap\<close>, assertion, index and
  \<open>panic!\<close> a branch. The generated parser itself is the parameter \<open>parse\<close> of
  \<open>parse_instructions\<close>. Panic messages leave out the rule they print.
\<close>

datatype ParseError = NotSupported | TypeMismatch

section \<open>Access to pairs\<close>

definition first_nested_pair :: "pair \<Rightarrow> panic + pair" where
  "first_nested_pair p =
     (case into_inner p of [] \<Rightarrow> Inl (Expect ''Cannot get first pair'') | q # _ \<Rightarrow> Inr q)"

definition pair_to_string :: "pair \<Rightarrow> string" where
  "pair_to_string p = as_str p"

text \<open>\<open>pairs.next().expect(msg)\<close>: the first pair and the rest.\<close>

fun expect_next :: "string \<Rightarrow> pair list \<Rightarrow> panic + (pair \<times> pair list)" where
  "expect_next msg [] = Inl (Expect msg)"
| "expect_next msg (p # ps) = Inr (p, ps)"

definition string_from_pair :: "pair \<Rightarrow> panic + string" where
  "string_from_pair p =
     (if as_rule p = R_constant \<or> as_rule p = R_ident
      then map_res pair_to_string (first_nested_pair p)
      else Inl Assert_failed)"

definition string_from_argument :: "pair \<Rightarrow> panic + (ParseError + string)" where
  "string_from_argument p =
     (if as_rule p \<noteq> R_arg then Inl Assert_failed
      else bind_res (first_nested_pair p) (\<lambda>inner.
        if as_rule inner = R_constant then map_res Inr (string_from_pair inner)
        else if as_rule inner = R_ident then map_res Inr (string_from_pair inner)
        else if as_rule inner = R_dynamic then Inr (Inl NotSupported)
        else Inr (Inl TypeMismatch)))"

section \<open>Machine instructions\<close>

definition build_minstr :: "pair \<Rightarrow> panic + MachineInstruction" where
  "build_minstr p =
     bind_res (expect_next ''No instruction name'' (into_inner p)) (\<lambda>(name, inner).
     bind_res (first_nested_pair name) (\<lambda>n.
     if as_rule n = R_server then
       bind_res (expect_next ''No port'' inner) (\<lambda>(a, _).
       bind_res (first_nested_pair a) (\<lambda>port_pair.
       bind_res (expect_some (Expect ''Cannot parse port'') (u16_from_str (pair_to_string port_pair)))
         (\<lambda>port. Inr (Server port))))
     else if as_rule n = R_profile then
       bind_res (expect_next ''No target'' inner) (\<lambda>(a, _).
       bind_res (first_nested_pair a) (\<lambda>target. Inr (Profile (pair_to_string target))))
     else if as_rule n = R_path then
       bind_res (expect_next ''No path'' inner) (\<lambda>(a, _).
       bind_res (first_nested_pair a) (\<lambda>first_arg.
       bind_res (string_from_argument first_arg) (\<lambda>r.
         case r of Inr value \<Rightarrow> Inr (Path value)
         | Inl e \<Rightarrow> Inl (Panic_msg ''Cannot parse argument''))))
     else Inl (Panic_msg ''Unknown machine instruction'')))"

definition build_ast_from_minstr :: "pair list \<Rightarrow> panic + MachineInstruction list" where
  "build_ast_from_minstr pairs = traverse build_minstr pairs"

section \<open>Work units\<close>

definition build_param :: "pair \<Rightarrow> panic + (string \<times> string)" where
  "build_param p =
     bind_res (expect_next ''No parameter name'' (into_inner p)) (\<lambda>(key, kv).
     bind_res (expect_next ''No parameter value'' kv) (\<lambda>(val, _).
     if as_rule key \<noteq> R_ident \<or> as_rule val \<noteq> R_value then Inl Assert_failed
     else Inr (pair_to_string key, pair_to_string val)))"

definition collect_map :: "(string \<times> string) list \<Rightarrow> string \<rightharpoonup> string" where
  "collect_map kvs = foldl (\<lambda>m (k, v). m(k \<mapsto> v)) Map.empty kvs"

definition build_ast_from_work :: "pair list \<Rightarrow> panic + (string \<times> (string \<rightharpoonup> string))" where
  "build_ast_from_work work_parts =
     bind_res (expect_next ''No work name'' work_parts) (\<lambda>(name, rest).
     bind_res (expect_next ''No work parameters'' rest) (\<lambda>(params, _).
     bind_res (traverse build_param (into_inner params)) (\<lambda>kvs.
     Inr (pair_to_string name, collect_map kvs))))"

definition build_dyn_arg :: "pair \<Rightarrow> panic + Arg" where
  "build_dyn_arg p =
     bind_res (first_nested_pair p) (\<lambda>q.
     bind_res (first_nested_pair q) (\<lambda>a. Inr (Const (pair_to_string a))))"

definition build_arg :: "pair \<Rightarrow> panic + Arg" where
  "build_arg p =
     bind_res (first_nested_pair p) (\<lambda>a.
     if as_rule a = R_constant then
       bind_res (first_nested_pair a) (\<lambda>v. Inr (Const (pair_to_string v)))
     else if as_rule a = R_ident then Inr (Var (pair_to_string a))
     else if as_rule a = R_dynamic then
       bind_res (expect_next ''No argument name'' (into_inner a)) (\<lambda>(name, inner).
       bind_res (expect_next ''No argument value'' inner) (\<lambda>(args_pair, _).
       bind_res (traverse build_dyn_arg (into_inner args_pair)) (\<lambda>args.
       Inr (Dynamic (pair_to_string name) args))))
     else Inl (Panic_msg ''Unknown arg type''))"

text \<open>\<open>args[0]\<close>\<close>

fun first_arg :: "Arg list \<Rightarrow> panic + Arg" where
  "first_arg [] = Inl Index_out_of_bounds"
| "first_arg (a # as) = Inr a"

definition build_instr :: "pair \<Rightarrow> panic + Instruction" where
  "build_instr p =
     bind_res (first_nested_pair p) (\<lambda>i.
     bind_res (expect_next ''No instruction name'' (into_inner i)) (\<lambda>(name, instrs).
     bind_res (expect_next ''No instruction arguments'' instrs) (\<lambda>(args_pair, _).
     bind_res (traverse build_arg (into_inner args_pair)) (\<lambda>args.
     bind_res (first_nested_pair name) (\<lambda>n.
     if as_rule n = R_task then
       (case args of [] \<Rightarrow> Inl Unreachable | a # as \<Rightarrow> Inr (Task a as))
     else if as_rule n = R_open then map_res Open (first_arg args)
     else if as_rule n = R_debug then map_res Debug (first_arg args)
     else if as_rule n = R_ping then map_res Ping (first_arg args)
     else Inl (Panic_msg ''Unknown instruction type''))))))"

definition build_ast_from_instr :: "pair list \<Rightarrow> panic + Instruction list" where
  "build_ast_from_instr pairs = traverse build_instr pairs"

definition build_opt :: "pair \<Rightarrow> panic + (string \<times> string)" where
  "build_opt p =
     bind_res (expect_next ''No dist argument key'' (into_inner p)) (\<lambda>(key, inner).
     bind_res (expect_next ''No dist argument value'' inner) (\<lambda>(val, _).
     Inr (pair_to_string key, pair_to_string val)))"

definition build_ast_from_dist :: "pair \<Rightarrow> panic + Dist" where
  "build_ast_from_dist p =
     (if as_rule p = R_dist then
        bind_res (traverse build_opt (filter (\<lambda>q. as_rule q = R_opt) (into_inner p))) (\<lambda>kvs.
        let rate_str = (case collect_map kvs ''rate'' of Some s \<Rightarrow> s | None \<Rightarrow> ''0'')
        in bind_res (expect_some Unwrap_Err (f64_from_str rate_str)) (\<lambda>r. Inr (Exp r)))
      else Inl (Panic_msg ''Unknown dist''))"

definition build_ast_from_function :: "pair list \<Rightarrow> panic + Node" where
  "build_ast_from_function func_parts =
     bind_res (expect_next ''No work unit'' func_parts) (\<lambda>(work, rest).
     bind_res (expect_next ''No instructions'' rest) (\<lambda>(instrs, rest').
     bind_res (build_ast_from_work (into_inner work)) (\<lambda>(name, args).
     bind_res (build_ast_from_instr (into_inner instrs)) (\<lambda>instructions.
     bind_res (case rest' of [] \<Rightarrow> Inr None | d # _ \<Rightarrow> map_res Some (build_ast_from_dist d)) (\<lambda>dist.
     Inr (Work name args instructions dist))))))"

section \<open>Expressions and files\<close>

fun build_ast_from_expr :: "pair \<Rightarrow> panic + Node" where
  "build_ast_from_expr (Pair r s ps) =
     (if r = R_expr then
        (case ps of [] \<Rightarrow> Inl Unwrap_None | p # _ \<Rightarrow> build_ast_from_expr p)
      else if r = R_machine then map_res Machine (build_ast_from_minstr ps)
      else if r = R_function then build_ast_from_function ps
      else Inl (Panic_msg ''Unknown expr''))"

definition file_exprs :: "pair list \<Rightarrow> pair list" where
  "file_exprs pairs =
     concat (map (\<lambda>p. if as_rule p \<noteq> R_file then []
                      else filter (\<lambda>i. as_rule i = R_expr \<or> as_rule i = R_machine) (into_inner p))
                 pairs)"

definition parse_instructions ::
    "(string \<Rightarrow> 'e + pair list) \<Rightarrow> string \<Rightarrow> panic + ('e + Node list)" where
  "parse_instructions parse source =
     (case parse source of
        Inl e \<Rightarrow> Inr (Inl e)
      | Inr pairs \<Rightarrow> map_res Inr (traverse build_ast_from_expr (file_exprs pairs)))"

text \<open>\<open>src/script/rules.rs\<close>: no rule is applied yet.\<close>

definition apply_rules :: "Node list \<Rightarrow> Node list" where
  "apply_rules works = works"

end
