(* ===== verification/Script_Props.thy ===== *)
theory Script_Props
  imports Script_Parser
begin

text \<open>
  Which scripts the translation accepts among those the grammar accepts, what it
  builds for them, and that every syntax tree it can build comes from a script.
\<close>

section \<open>The supported scripts\<close>

definition dyn_arg_ok :: "pair \<Rightarrow> bool" where
  "dyn_arg_ok b = (case into_inner b of [] \<Rightarrow> False | c # _ \<Rightarrow> into_inner c \<noteq> [])"

text \<open>
  An identifier, a quoted constant (an unquoted number has no inner pair), or a
  helper applied to quoted constants or to helpers.
\<close>

definition arg_ok :: "pair \<Rightarrow> bool" where
  "arg_ok q =
     (case into_inner q of
        [a] \<Rightarrow> as_rule a = R_ident \<or> (as_rule a = R_constant \<and> into_inner a \<noteq> []) \<or>
               (as_rule a = R_dynamic \<and>
                (case into_inner a of [n, as] \<Rightarrow> list_all dyn_arg_ok (into_inner as) | _ \<Rightarrow> False))
      | _ \<Rightarrow> False)"

definition instr_ok :: "pair \<Rightarrow> bool" where
  "instr_ok e =
     (case into_inner e of
        [i] \<Rightarrow> as_rule i = R_instruction \<and>
          (case into_inner i of
             [n, as] \<Rightarrow> into_inner as \<noteq> [] \<and> list_all arg_ok (into_inner as) \<and>
               (case into_inner n of
                  [f] \<Rightarrow> as_rule f \<in> {R_task, R_open, R_debug, R_ping}
                | _ \<Rightarrow> False)
           | _ \<Rightarrow> False)
      | _ \<Rightarrow> False)"

definition opt_pair :: "pair \<Rightarrow> string \<times> string" where
  "opt_pair q = (case into_inner q of k # v # _ \<Rightarrow> (as_str k, as_str v) | _ \<Rightarrow> ([], []))"

definition rate_text :: "pair \<Rightarrow> string" where
  "rate_text d =
     (case map_of (rev (map opt_pair (tl (into_inner d)))) ''rate'' of Some s \<Rightarrow> s | None \<Rightarrow> ''0'')"

definition function_ok :: "pair \<Rightarrow> bool" where
  "function_ok p =
     (case into_inner p of
        w # i # ds \<Rightarrow> length (into_inner w) = 2 \<and> list_all instr_ok (into_inner i) \<and>
                      list_all (\<lambda>d. f64_from_str (rate_text d) \<noteq> None) ds
      | _ \<Rightarrow> False)"

definition minstr_ok :: "pair \<Rightarrow> bool" where
  "minstr_ok q =
     (case into_inner q of
        [n, as] \<Rightarrow>
          (case (into_inner n, into_inner as) of
             ([f], a # _) \<Rightarrow>
               (as_rule f = R_server \<and> u16_from_str (as_str a) \<noteq> None) \<or> as_rule f = R_profile \<or>
               (as_rule f = R_path \<and>
                (case into_inner a of [c] \<Rightarrow> as_rule c = R_constant \<and> into_inner c \<noteq> [] | _ \<Rightarrow> False))
           | _ \<Rightarrow> False)
      | _ \<Rightarrow> False)"

definition node_ok :: "pair \<Rightarrow> bool" where
  "node_ok p =
     (if as_rule p = R_machine then list_all minstr_ok (into_inner p)
      else (case into_inner p of [q] \<Rightarrow> as_rule q = R_function \<and> function_ok q | _ \<Rightarrow> False))"

section \<open>The translation succeeds exactly on them\<close>

lemma first_nested_Cons [simp]: "into_inner p = q # qs \<Longrightarrow> first_nested_pair p = Inr q"
  and first_nested_Nil [simp]: "into_inner p = [] \<Longrightarrow> first_nested_pair p = Inl (Expect ''Cannot get first pair'')"
  by (simp_all add: first_nested_pair_def)

lemma build_dyn_arg_ok: "(\<exists>a. build_dyn_arg b = Inr a) \<longleftrightarrow> dyn_arg_ok b"
proof (cases "into_inner b")
  case (Cons c cs)
  then show ?thesis by (cases "into_inner c") (auto simp: build_dyn_arg_def dyn_arg_ok_def)
qed (simp add: build_dyn_arg_def dyn_arg_ok_def)

lemma build_arg_ok:
  assumes "conforms p" and "as_rule p = R_args" and "q \<in> set (into_inner p)"
  shows "(\<exists>a. build_arg q = Inr a) \<longleftrightarrow> arg_ok q"
proof -
  from conforms_arg [OF assms] obtain a where a: "into_inner q = [a]" "conforms a"
    "as_rule a \<in> {R_dynamic, R_ident, R_constant}" by blast
  consider "as_rule a = R_ident" | "as_rule a = R_constant" | "as_rule a = R_dynamic"
    using a(3) by blast
  then show ?thesis
  proof cases
    case 1
    then show ?thesis by (simp add: build_arg_def arg_ok_def a)
  next
    case 2
    then show ?thesis by (cases "into_inner a") (simp_all add: build_arg_def arg_ok_def a)
  next
    case 3
    from conforms_dynamic [OF a(2) 3] obtain n as where d: "into_inner a = [n, as]" by blast
    have "(\<exists>xs. traverse build_dyn_arg (into_inner as) = Inr xs) \<longleftrightarrow> list_all dyn_arg_ok (into_inner as)"
      by (simp add: traverse_succeeds build_dyn_arg_ok list_all_iff)
    then show ?thesis
      by (auto simp: build_arg_def arg_ok_def a(1) 3 d bind_res_eq_Inr)
  qed
qed

lemma build_args_ok:
  assumes "conforms p" and "as_rule p = R_args"
  shows "(\<exists>xs. traverse build_arg (into_inner p) = Inr xs) \<longleftrightarrow> list_all arg_ok (into_inner p)"
  using build_arg_ok [OF assms] by (simp add: traverse_succeeds list_all_iff)

lemma traverse_not_Nil: "traverse f xs = Inr ys \<Longrightarrow> ys = [] \<longleftrightarrow> xs = []"
  by (auto simp: result_simps)

lemma build_instr_nested_function:
  assumes "conforms f" and "as_rule f = R_function" and "into_inner e = [f]"
  shows "\<exists>msg. build_instr e = Inl (Panic_msg msg)"
proof -
  from conforms_function [OF assms(1,2)] obtain w i ds where f: "into_inner f = w # i # ds"
    "conforms w" "as_rule w = R_work" "conforms i" "as_rule i = R_instructions" by blast
  from conforms_work [OF f(2,3)] obtain n ps where w: "into_inner w = n # ps" "as_rule n = R_ident"
    by blast
  show ?thesis
  proof (cases "into_inner i")
    case Nil
    then show ?thesis by (simp add: build_instr_def assms(3) f(1) w)
  next
    case (Cons x xs)
    then have "conforms x \<and> as_rule x = R_expr"
      using conforms_instructions [OF f(4,5), of x] by simp
    with conforms_expr [of x] obtain y where "into_inner x = [y]"
      "as_rule y = R_function \<or> as_rule y = R_instruction" by blast
    then have "build_arg x = Inl (Panic_msg ''Unknown arg type'')" by (auto simp: build_arg_def)
    then show ?thesis by (simp add: build_instr_def assms(3) f(1) Cons)
  qed
qed

lemma build_instr_ok:
  assumes "conforms e" and "as_rule e = R_expr"
  shows "(\<exists>x. build_instr e = Inr x) \<longleftrightarrow> instr_ok e"
proof -
  from conforms_expr [OF assms] obtain i where e: "into_inner e = [i]" "conforms i"
    "as_rule i = R_function \<or> as_rule i = R_instruction" by blast
  show ?thesis
  proof (cases "as_rule i = R_function")
    case True
    with build_instr_nested_function [OF e(2) True e(1)] show ?thesis
      by (auto simp: instr_ok_def e(1))
  next
    case False
    with e(3) have "as_rule i = R_instruction" by blast
    from conforms_instruction [OF e(2) this] obtain n f as where
      i: "into_inner i = n # as" "into_inner n = [f]"
      "as_rule f \<in> {R_task, R_network, R_port, R_open, R_ping, R_debug}"
      "as = [] \<or> (\<exists>a. as = [a] \<and> conforms a \<and> as_rule a = R_args)" by blast
    show ?thesis
    proof (cases "as = []")
      case True
      then show ?thesis by (simp add: build_instr_def instr_ok_def e(1) i(1))
    next
      case False
      with i(4) obtain a where a: "as = [a]" "conforms a" "as_rule a = R_args" by blast
      show ?thesis
      proof (cases "list_all arg_ok (into_inner a)")
        case False
        then have "\<nexists>xs. traverse build_arg (into_inner a) = Inr xs"
          using build_args_ok [OF a(2,3)] by blast
        with False show ?thesis
          by (auto simp: build_instr_def instr_ok_def e(1) i(1,2) a(1) bind_res_eq_Inr)
      next
        case True
        then obtain xs where xs: "traverse build_arg (into_inner a) = Inr xs"
          using build_args_ok [OF a(2,3)] by blast
        show ?thesis
          using i(3) True traverse_not_Nil [OF xs] \<open>as_rule i = R_instruction\<close>
          by (cases xs) (auto simp: build_instr_def instr_ok_def e(1) i(1,2) a(1) xs)
      qed
    qed
  qed
qed

lemma build_work_ok:
  assumes "conforms w" and "as_rule w = R_work"
  shows "(\<exists>x. build_ast_from_work (into_inner w) = Inr x) \<longleftrightarrow> length (into_inner w) = 2"
proof -
  from conforms_work [OF assms] obtain n ps where w: "into_inner w = n # ps"
    "ps = [] \<or> (\<exists>q. ps = [q] \<and> conforms q \<and> as_rule q = R_params)" by blast
  show ?thesis
  proof (cases "ps = []")
    case True
    then show ?thesis by (simp add: build_ast_from_work_def w(1))
  next
    case False
    with w(2) obtain q where q: "ps = [q]" "conforms q" "as_rule q = R_params" by blast
    have "\<exists>y. build_param x = Inr y" if "x \<in> set (into_inner q)" for x
      using conforms_params [OF q(2,3) that] by (auto simp: build_param_def)
    then obtain kvs where "traverse build_param (into_inner q) = Inr kvs"
      using traverse_succeeds [of build_param "into_inner q"] by blast
    then show ?thesis by (simp add: build_ast_from_work_def w(1) q(1))
  qed
qed

lemma collect_map_of: "collect_map kvs = map_of (rev kvs)"
proof -
  have "foldl (\<lambda>m (k, v). m(k \<mapsto> v)) m kvs = m ++ map_of (rev kvs)" for m :: "string \<rightharpoonup> string"
    by (induction kvs arbitrary: m) (auto simp: map_add_def fun_eq_iff split: option.splits)
  then show ?thesis by (simp add: collect_map_def)
qed

lemma build_dist_eq:
  assumes "conforms d" and "as_rule d = R_dist"
  shows "build_ast_from_dist d = map_res Exp (expect_some Unwrap_Err (f64_from_str (rate_text d)))"
proof -
  from conforms_dist [OF assms] obtain n os where d: "into_inner d = n # os" "as_rule n = R_distName"
    and os: "\<And>q. q \<in> set os \<Longrightarrow> as_rule q = R_opt \<and> (\<exists>k v. into_inner q = [k, v])" by blast
  have "filter (\<lambda>q. as_rule q = R_opt) (into_inner d) = os"
    using os d by (auto simp: filter_id_conv)
  moreover have "traverse build_opt os = Inr (map opt_pair os)"
    using os traverse_map_Inr [of os build_opt "\<lambda>x. x" opt_pair]
    by (fastforce simp: build_opt_def opt_pair_def pair_to_string_def)
  ultimately show ?thesis
    using assms(2)
    by (cases "f64_from_str (rate_text d)")
      (auto simp: build_ast_from_dist_def rate_text_def d(1) collect_map_of Let_def)
qed

lemma build_instrs_ok:
  assumes "conforms i" and "as_rule i = R_instructions"
  shows "(\<exists>x. build_ast_from_instr (into_inner i) = Inr x) \<longleftrightarrow> list_all instr_ok (into_inner i)"
  using conforms_instructions [OF assms]
  by (auto simp: build_ast_from_instr_def traverse_succeeds build_instr_ok list_all_iff)

lemma build_function_ok:
  assumes "conforms p" and "as_rule p = R_function"
  shows "(\<exists>x. build_ast_from_function (into_inner p) = Inr x) \<longleftrightarrow> function_ok p"
proof -
  from conforms_function [OF assms] obtain w i ds where p: "into_inner p = w # i # ds"
    and w: "conforms w" "as_rule w = R_work" and i: "conforms i" "as_rule i = R_instructions"
    and ds: "ds = [] \<or> (\<exists>d. ds = [d] \<and> conforms d \<and> as_rule d = R_dist)" by blast
  have "(\<exists>x. (case ds of [] \<Rightarrow> Inr None | d # _ \<Rightarrow> map_res Some (build_ast_from_dist d)) = Inr x) \<longleftrightarrow>
      list_all (\<lambda>d. f64_from_str (rate_text d) \<noteq> None) ds"
    using ds by (auto simp: build_dist_eq result_simps)
  then show ?thesis
    using build_work_ok [OF w] build_instrs_ok [OF i]
    by (fastforce simp: build_ast_from_function_def function_ok_def p bind_res_eq_Inr)
qed

lemma build_minstr_ok:
  assumes "conforms p" and "as_rule p = R_machine" and "q \<in> set (into_inner p)"
  shows "(\<exists>x. build_minstr q = Inr x) \<longleftrightarrow> minstr_ok q"
proof -
  from conforms_machine [OF assms] obtain n f as where q: "into_inner q = n # as" "into_inner n = [f]"
    "as_rule f \<in> {R_server, R_load, R_memory, R_profile, R_path}"
    and as: "as = [] \<or> (\<exists>a. as = [a] \<and> conforms a \<and> as_rule a = R_args)" by blast
  show ?thesis
  proof (cases "as = []")
    case True
    then show ?thesis using q(3) by (auto simp: build_minstr_def minstr_ok_def q(1,2))
  next
    case False
    with as obtain a where a: "as = [a]" "conforms a" "as_rule a = R_args" by blast
    show ?thesis
    proof (cases "into_inner a")
      case Nil
      then show ?thesis using q(3) by (auto simp: build_minstr_def minstr_ok_def q(1,2) a(1))
    next
      case (Cons b bs)
      with conforms_arg [OF a(2,3), of b] obtain c where b: "as_rule b = R_arg" "into_inner b = [c]"
        "conforms c" "as_rule c \<in> {R_dynamic, R_ident, R_constant}" by auto
      have leaf: "as_rule c = R_ident \<Longrightarrow> into_inner c = []" using conforms_leaf [OF b(3)] by simp
      show ?thesis
        using q(3) b(4) leaf
        by (cases "into_inner c")
          (auto simp: build_minstr_def minstr_ok_def q(1,2) a(1) Cons b(1,2) result_simps
            pair_to_string_def string_from_argument_def string_from_pair_def)
    qed
  qed
qed

lemma build_expr_ok:
  assumes "conforms p" and "as_rule p = R_expr \<or> as_rule p = R_machine"
  shows "(\<exists>x. build_ast_from_expr p = Inr x) \<longleftrightarrow> node_ok p"
proof -
  obtain r s ps where p: "p = Pair r s ps" by (cases p)
  show ?thesis
  proof (cases "as_rule p = R_machine")
    case True
    then show ?thesis
      using build_minstr_ok [OF assms(1) True]
      by (auto simp: p node_ok_def build_ast_from_minstr_def result_simps traverse_succeeds
          list_all_iff simp flip: traverse_eq_Inr)
  next
    case False
    with assms(2) have r: "as_rule p = R_expr" by blast
    from conforms_expr [OF assms(1) this] obtain q where q: "into_inner p = [q]" "conforms q"
      "as_rule q = R_function \<or> as_rule q = R_instruction" by blast
    obtain rq sq qs where qq: "q = Pair rq sq qs" by (cases q)
    from r q False show ?thesis
      using build_function_ok [OF q(2)] by (auto simp: p qq node_ok_def)
  qed
qed

lemma file_content_inner:
  assumes "conforms f" and "as_rule f = R_file"
  shows "\<exists>xs e. into_inner f = xs @ [e] \<and> as_rule e = EOI \<and>
           (\<forall>x \<in> set xs. conforms x \<and> (as_rule x = R_expr \<or> as_rule x = R_machine)) \<and>
           (\<forall>x \<in> set (tl xs). as_rule x = R_expr)"
proof -
  from assms have ne: "into_inner f \<noteq> []" by (auto simp: conforms_iff [of f] file_content_def)
  then obtain xs e where f: "into_inner f = xs @ [e]" by (meson rev_exhaust)
  with assms have c: "file_content (map as_rule xs @ [as_rule e])" "list_all conforms xs"
    by (auto simp: conforms_iff [of f])
  from c(1) have "as_rule e = EOI" by (simp add: file_content_def)
  moreover have "(\<forall>x \<in> set xs. as_rule x = R_expr \<or> as_rule x = R_machine) \<and>
      (\<forall>x \<in> set (tl xs). as_rule x = R_expr)"
    using c(1) by (cases xs) (auto simp: file_content_def many_def list_all_iff)
  ultimately show ?thesis using f c(2) by (auto simp: list_all_iff)
qed

lemma file_exprs_file:
  assumes "conforms f" and "as_rule f = R_file"
  shows "file_exprs [f] = butlast (into_inner f)"
    "\<forall>x \<in> set (butlast (into_inner f)). conforms x \<and> (as_rule x = R_expr \<or> as_rule x = R_machine)"
proof -
  from file_content_inner [OF assms] obtain xs e where f: "into_inner f = xs @ [e]" "as_rule e = EOI"
    and xs: "\<forall>x \<in> set xs. conforms x \<and> (as_rule x = R_expr \<or> as_rule x = R_machine)" by blast
  then show "file_exprs [f] = butlast (into_inner f)"
    using assms(2) by (auto simp: file_exprs_def filter_id_conv)
  show "\<forall>x \<in> set (butlast (into_inner f)). conforms x \<and> (as_rule x = R_expr \<or> as_rule x = R_machine)"
    using xs f(1) by simp
qed

section \<open>Scripts for syntax trees\<close>

text \<open>
  The text of an argument, an instruction, a parameter and a work unit, with no
  more blanks than needed, and the parse tree over that text.
\<close>

definition leaf :: "Rule \<Rightarrow> string \<Rightarrow> pair" where
  "leaf r s = Pair r s []"

definition quoted :: "string \<Rightarrow> string" where
  "quoted t = CHR 0x22 # t @ [CHR 0x22]"

fun commas :: "string list \<Rightarrow> string" where
  "commas [] = []"
| "commas [x] = x"
| "commas (x # xs) = x @ '','' @ commas xs"

definition parens :: "string list \<Rightarrow> string" where
  "parens xs = ''('' @ commas xs @ '')''"

definition const_tree :: "string \<Rightarrow> pair" where
  "const_tree t = Pair R_arg (quoted t) [Pair R_constant (quoted t) [leaf R_value t]]"

fun expressible_arg :: "Arg \<Rightarrow> bool" where
  "expressible_arg (Const t) = True"
| "expressible_arg (Var n) = True"
| "expressible_arg (Dynamic f as) =
     ((f = ''random_path'' \<or> f = ''random_string'') \<and> list_all is_Const as)"

definition const_texts :: "Arg list \<Rightarrow> string list" where
  "const_texts as = map (\<lambda>a. quoted (text_of a)) as"

fun arg_text :: "Arg \<Rightarrow> string" where
  "arg_text (Const t) = quoted t"
| "arg_text (Var n) = n"
| "arg_text (Dynamic f as) = f @ parens (const_texts as)"

fun arg_tree :: "Arg \<Rightarrow> pair" where
  "arg_tree (Const t) = const_tree t"
| "arg_tree (Var n) = Pair R_arg n [leaf R_ident n]"
| "arg_tree (Dynamic f as) =
     Pair R_arg (f @ parens (const_texts as)) [Pair R_dynamic (f @ parens (const_texts as))
       [Pair R_dynamicName f [leaf (if f = ''random_path'' then R_randomPath else R_randomString) f],
        Pair R_args (parens (const_texts as)) (map (\<lambda>a. const_tree (text_of a)) as)]]"

fun call_of :: "Instruction \<Rightarrow> Rule \<times> string \<times> Arg list" where
  "call_of (Task a as) = (R_task, ''task'', a # as)"
| "call_of (Open a) = (R_open, ''open'', [a])"
| "call_of (Debug a) = (R_debug, ''debug'', [a])"
| "call_of (Ping a) = (R_ping, ''ping'', [a])"

definition expressible_instr :: "Instruction \<Rightarrow> bool" where
  "expressible_instr i = list_all expressible_arg (snd (snd (call_of i)))"

definition instr_text :: "Instruction \<Rightarrow> string" where
  "instr_text i = (case call_of i of (r, kw, as) \<Rightarrow> kw @ parens (map arg_text as) @ '';'')"

definition instr_tree :: "Instruction \<Rightarrow> pair" where
  "instr_tree i = (case call_of i of (r, kw, as) \<Rightarrow>
     Pair R_expr (instr_text i) [Pair R_instruction (instr_text i)
       [Pair R_funcName kw [leaf r kw], Pair R_args (parens (map arg_text as)) (map arg_tree as)]])"

definition param_text :: "Rule \<Rightarrow> string \<times> string \<Rightarrow> string" where
  "param_text r kv = fst kv @ ''='' @ snd kv @ (if r = R_opt then '';'' else [])"

definition param_tree :: "Rule \<Rightarrow> string \<times> string \<Rightarrow> pair" where
  "param_tree r kv = Pair r (param_text r kv) [leaf R_ident (fst kv), leaf R_value (snd kv)]"

fun dist_name :: "Rule \<Rightarrow> string" where
  "dist_name R_exp = ''exp''"
| "dist_name R_zipf = ''zipf''"
| "dist_name _ = ''uniform''"

definition dist_text :: "Rule \<Rightarrow> (string \<times> string) list \<Rightarrow> string" where
  "dist_text r opts = '':'' @ dist_name r @ ''{'' @ concat (map (param_text R_opt) opts) @ ''}''"

definition dist_tree :: "Rule \<Rightarrow> (string \<times> string) list \<Rightarrow> pair" where
  "dist_tree r opts = Pair R_dist (dist_text r opts)
     (Pair R_distName (dist_name r) [leaf r (dist_name r)] # map (param_tree R_opt) opts)"

definition work_text ::
    "string \<Rightarrow> (string \<times> string) list \<Rightarrow> Instruction list \<Rightarrow> pair list \<Rightarrow> string" where
  "work_text name ps is ds = name @ parens (map (param_text R_param) ps) @ ''{'' @
     concat (map instr_text is) @ ''}'' @ concat (map as_str ds)"

definition work_tree ::
    "string \<Rightarrow> (string \<times> string) list \<Rightarrow> Instruction list \<Rightarrow> pair list \<Rightarrow> pair" where
  "work_tree name ps is ds =
     Pair R_expr (work_text name ps is ds) [Pair R_function (work_text name ps is ds)
       ([Pair R_work (name @ parens (map (param_text R_param) ps))
           [leaf R_ident name, Pair R_params (parens (map (param_text R_param) ps)) (map (param_tree R_param) ps)],
         Pair R_instructions (concat (map instr_text is)) (map instr_tree is)] @ ds)]"

lemmas tree_defs = leaf_def const_tree_def instr_tree_def param_tree_def dist_tree_def work_tree_def

lemma build_dyn_const [simp]: "build_dyn_arg (const_tree t) = Inr (Const t)"
  by (simp add: build_dyn_arg_def const_tree_def leaf_def first_nested_pair_def pair_to_string_def)

lemma build_arg_tree: "expressible_arg a \<Longrightarrow> build_arg (arg_tree a) = Inr a"
proof (cases a)
  case (Dynamic f as)
  assume "expressible_arg a"
  then have "traverse build_dyn_arg (map (\<lambda>a. const_tree (text_of a)) as) = Inr (map (\<lambda>a. a) as)"
    by (intro traverse_map_Inr) (auto simp: Dynamic list_all_iff is_Const_def)
  then show ?thesis
    by (simp add: Dynamic build_arg_def first_nested_pair_def pair_to_string_def)
qed (simp_all add: build_arg_def tree_defs first_nested_pair_def pair_to_string_def)

lemma build_instr_tree: "expressible_instr i \<Longrightarrow> build_instr (instr_tree i) = Inr i"
proof -
  assume e: "expressible_instr i"
  obtain r kw as where c: "call_of i = (r, kw, as)" by (cases "call_of i")
  have "traverse build_arg (map arg_tree as) = Inr (map (\<lambda>a. a) as)"
    using e by (intro traverse_map_Inr) (auto simp: expressible_instr_def c list_all_iff build_arg_tree)
  then show ?thesis using c
    by (cases i) (auto simp: build_instr_def tree_defs first_nested_pair_def)
qed

lemma build_param_tree [simp]: "build_param (param_tree r kv) = Inr kv"
  by (simp add: build_param_def tree_defs pair_to_string_def)

lemma build_opt_tree [simp]: "build_opt (param_tree r kv) = Inr kv"
  by (simp add: build_opt_def tree_defs pair_to_string_def)

lemma conforms_arg_tree: "expressible_arg a \<Longrightarrow> conforms (arg_tree a) \<and> as_rule (arg_tree a) = R_arg"
  by (cases a) (auto simp: tree_defs one_of_def optional_def many_def list_all_iff)

lemma conforms_instr_tree: "expressible_instr i \<Longrightarrow> conforms (instr_tree i) \<and> as_rule (instr_tree i) = R_expr"
  by (cases i) (auto simp: instr_tree_def leaf_def expressible_instr_def one_of_def starts_def
      optional_def many_def list_all_iff conforms_arg_tree)

lemma conforms_dist_tree: "r \<in> {R_exp, R_zipf, R_uniform} \<Longrightarrow> conforms (dist_tree r opts)"
  by (auto simp: tree_defs starts_def one_of_def many_def list_all_iff)

lemma conforms_work_tree:
  assumes "list_all expressible_instr is"
    and "ds = [] \<or> (\<exists>d. ds = [d] \<and> conforms d \<and> as_rule d = R_dist)"
  shows "conforms (work_tree name ps is ds)"
  using assms
  by (auto simp: work_tree_def leaf_def param_tree_def one_of_def starts_def optional_def many_def
      list_all_iff conforms_instr_tree)

lemma build_dist_tree:
  "build_ast_from_dist (dist_tree r opts) =
     (case f64_from_str (case map_of (rev opts) ''rate'' of Some s \<Rightarrow> s | None \<Rightarrow> ''0'') of
        Some x \<Rightarrow> Inr (Exp x) | None \<Rightarrow> Inl Unwrap_Err)"
proof -
  have "filter (\<lambda>q. as_rule q = R_opt) (map (param_tree R_opt) opts) = map (param_tree R_opt) opts"
    by (auto simp: filter_id_conv param_tree_def)
  moreover have "traverse build_opt (map (param_tree R_opt) opts) = Inr (map (\<lambda>x. x) opts)"
    by (rule traverse_map_Inr) simp
  ultimately show ?thesis
    by (auto simp: build_ast_from_dist_def dist_tree_def collect_map_of Let_def split: option.splits)
qed

lemma build_work_tree:
  assumes "list_all expressible_instr is"
  shows "build_ast_from_expr (work_tree name ps is ds) =
    bind_res (case ds of [] \<Rightarrow> Inr None | d # _ \<Rightarrow> map_res Some (build_ast_from_dist d)) (\<lambda>dist.
      Inr (Work name (map_of (rev ps)) is dist))"
proof -
  have "traverse build_param (map (param_tree R_param) ps) = Inr (map (\<lambda>x. x) ps)"
    by (rule traverse_map_Inr) simp
  moreover have "traverse build_instr (map instr_tree is) = Inr (map (\<lambda>x. x) is)"
    using assms by (intro traverse_map_Inr) (simp add: list_all_iff build_instr_tree)
  ultimately show ?thesis
    by (simp add: work_tree_def leaf_def build_ast_from_function_def build_ast_from_work_def
        build_ast_from_instr_def collect_map_of pair_to_string_def)
qed


lemma f64_from_str_100: "f64_from_str ''100.0'' = Some (Fin 100)"
  using f64_of_rat_of_int [of 100]
  by (simp add: f64_from_str_def decimal_from_str_def exponent_from_str_def digits_value_def
      is_digit_def digit_of_def to_lower_def power_int_def)

text \<open>The script of the unit test \<open>test_ping_with_machine\<close>, as a parse tree.\<close>

definition ping_script :: pair where
  "ping_script = Pair R_file []
     [Pair R_machine [] [Pair R_machineInstruction []
        [Pair R_mInstrName ''server'' [leaf R_server ''server''],
         Pair R_args ''(8080)'' [Pair R_arg ''8080'' [leaf R_constant ''8080'']]]],
      work_tree ''main'' [] [Debug (Const ''ping server''), Ping (Const ''127.0.0.1:8080'')] [],
      leaf EOI []]"

lemma ping_script_conforms: "conforms ping_script" "as_rule ping_script = R_file"
proof -
  have "conforms (work_tree ''main'' [] [Debug (Const ''ping server''), Ping (Const ''127.0.0.1:8080'')] [])"
    by (rule conforms_work_tree) (simp_all add: expressible_instr_def)
  then show "conforms ping_script"
    by (simp add: ping_script_def leaf_def file_content_def one_of_def starts_def optional_def
        many_def work_tree_def)
qed (simp add: ping_script_def)

lemma ping_script_ok: "list_all node_ok (butlast (into_inner ping_script))"
  by (simp add: ping_script_def node_ok_def minstr_ok_def function_ok_def instr_ok_def arg_ok_def
      tree_defs u16_from_str_def nat_from_str_def digit_of_def)

section \<open>Properties\<close>

text \<open>
  Among the scripts the grammar accepts, the translation returns a syntax
  tree exactly for the supported ones: no instruction at the top level, no nested
  work unit, every work unit with a parameter list, every instruction one of
  \<open>task\<close>, \<open>open\<close>, \<open>debug\<close> and \<open>ping\<close> with at least one argument, no
  unquoted number as an argument, machine instructions \<open>server\<close> with a 16-bit
  port, \<open>profile\<close>, and \<open>path\<close> with a quoted constant, and a rate that is a
  number. On all others it panics.
\<close>

lemma script_accepted_iff_supported:
  assumes "parse source = Inr [f]" and "conforms f" and "as_rule f = R_file"
  shows "(\<exists>ns. parse_instructions parse source = Inr (Inr ns)) \<longleftrightarrow>
         list_all node_ok (butlast (into_inner f))"
proof -
  have "(\<exists>ns. traverse build_ast_from_expr (file_exprs [f]) = Inr ns) \<longleftrightarrow>
      list_all node_ok (butlast (into_inner f))"
    using file_exprs_file [OF assms(2,3)]
    by (simp add: traverse_succeeds build_expr_ok list_all_iff)
  then show ?thesis
    by (auto simp: parse_instructions_def assms(1) map_res_eq_Inr)
qed

lemma script_accepted_iff_supported_witness:
  "\<exists>ns. parse_instructions (\<lambda>_. Inr [ping_script] :: unit + pair list) ''machine { server(8080); }'' = Inr (Inr ns)"
  using script_accepted_iff_supported
    [of "\<lambda>_. Inr [ping_script]", OF refl ping_script_conforms] ping_script_ok by blast

text \<open>
  A script that is accepted gives one node per machine block and work unit,
  in order, and only the first can be a machine block.
\<close>

lemma script_nodes_in_order:
  assumes "parse source = Inr [f]" and "conforms f" and "as_rule f = R_file"
    and "parse_instructions parse source = Inr (Inr ns)"
  shows "list_all2 (\<lambda>p n. build_ast_from_expr p = Inr n) (butlast (into_inner f)) ns \<and>
         length ns = length (into_inner f) - 1 \<and> list_all is_Work (tl ns)"
proof -
  have all2: "list_all2 (\<lambda>p n. build_ast_from_expr p = Inr n) (butlast (into_inner f)) ns"
    using assms(4) file_exprs_file(1) [OF assms(2,3)]
    by (simp add: parse_instructions_def assms(1) result_simps)
  have work: "is_Work n" if "as_rule p = R_expr" "conforms p" "build_ast_from_expr p = Inr n" for p n
  proof -
    from conforms_expr [OF that(2,1)] obtain q where q: "into_inner p = [q]"
      "as_rule q = R_function \<or> as_rule q = R_instruction" by blast
    with that(1,3) show ?thesis
      by (cases p; cases q) (auto simp: build_ast_from_function_def result_simps)
  qed
  from file_content_inner [OF assms(2,3)] obtain xs e where xs: "into_inner f = xs @ [e]"
    "\<forall>x \<in> set xs. conforms x" "\<forall>x \<in> set (tl xs). as_rule x = R_expr" by blast
  have "list_all is_Work (tl ns)"
  proof (cases xs)
    case Nil
    with all2 xs(1) show ?thesis by simp
  next
    case (Cons y ys)
    with all2 xs(1) obtain m ms where ns: "ns = m # ms"
      "list_all2 (\<lambda>p n. build_ast_from_expr p = Inr n) ys ms" by (auto simp: list_all2_Cons1)
    have "is_Work (ms ! i)" if "i < length ms" for i
      using that ns(2) xs(2,3) work [of "ys ! i" "ms ! i"]
      by (simp add: Cons list_all2_conv_all_nth)
    then show ?thesis by (simp add: ns(1) list_all_length)
  qed
  with all2 list_all2_lengthD [OF all2] show ?thesis by simp
qed

lemma script_nodes_in_order_witness:
  "list_all is_Work (tl [Machine [Server 8080],
     Work ''main'' Map.empty [Debug (Const ''ping server''), Ping (Const ''127.0.0.1:8080'')] None]) \<and>
   length (into_inner ping_script) = 3"
proof -
  let ?is = "[Debug (Const ''ping server''), Ping (Const ''127.0.0.1:8080'')]"
  have w: "build_ast_from_expr (work_tree ''main'' [] ?is []) = Inr (Work ''main'' Map.empty ?is None)"
    by (subst build_work_tree) (simp_all add: expressible_instr_def)
  have "parse_instructions (\<lambda>_. Inr [ping_script] :: unit + pair list) [] =
      Inr (Inr [Machine [Server 8080], Work ''main'' Map.empty ?is None])"
    using w file_exprs_file(1) [OF ping_script_conforms]
    by (simp add: parse_instructions_def ping_script_def build_ast_from_minstr_def build_minstr_def
        leaf_def first_nested_pair_def pair_to_string_def u16_from_str_def nat_from_str_def digit_of_def)
  from script_nodes_in_order [OF refl ping_script_conforms this] show ?thesis
    by (simp add: ping_script_def)
qed

text \<open>
  Every work unit over expressible arguments has a script of the grammar that
  is translated back to it: the name, the parameters (a later one with the same
  name winning), the instructions in order and the distribution.
\<close>

lemma work_unit_roundtrip:
  assumes "list_all expressible_instr is" and "f64_from_str s = Some r"
  shows "conforms (work_tree name ps is [dist_tree R_exp [(''rate'', s)]]) \<and>
         build_ast_from_expr (work_tree name ps is [dist_tree R_exp [(''rate'', s)]]) =
           Inr (Work name (map_of (rev ps)) is (Some (Exp r)))"
proof -
  have "as_rule (dist_tree R_exp [(''rate'', s)]) = R_dist" by (simp add: dist_tree_def)
  then show ?thesis
    using conforms_work_tree [OF assms(1)] conforms_dist_tree [of R_exp] assms(2)
    by (simp add: build_work_tree [OF assms(1)] build_dist_tree)
qed

lemma work_unit_roundtrip_witness:
  "build_ast_from_expr (work_tree ''random'' [(''workers'', ''10''), (''duration'', ''100'')]
       [Open (Dynamic ''random_path'' [Const ''/tmp''])] [dist_tree R_exp [(''rate'', ''100.0'')]]) =
     Inr (Work ''random'' [''workers'' \<mapsto> ''10'', ''duration'' \<mapsto> ''100'']
       [Open (Dynamic ''random_path'' [Const ''/tmp''])] (Some (Exp (Fin 100))))"
  using work_unit_roundtrip [OF _ f64_from_str_100, of "[Open (Dynamic ''random_path'' [Const ''/tmp''])]"
      "''random''" "[(''workers'', ''10''), (''duration'', ''100'')]"]
  by (simp add: expressible_instr_def fun_upd_twist)



text \<open>
  A machine instruction \<open>path\<close> whose argument is an identifier always
  panics, although the translation has a branch that means to return its text: an
  identifier has no inner pair to take the text from.
\<close>

lemma path_identifier_panics:
  assumes "conforms p" and "as_rule p = R_args" and "a \<in> set (into_inner p)"
    and "into_inner a = [c]" and "as_rule c = R_ident"
  shows "string_from_argument a = Inl (Expect ''Cannot get first pair'')"
proof -
  have "as_rule a = R_arg" "conforms c" using conforms_arg [OF assms(1-3)] assms(4) by auto
  with conforms_leaf [of c] assms(4,5) show ?thesis
    by (simp add: string_from_argument_def string_from_pair_def)
qed

lemma path_identifier_panics_witness:
  "string_from_argument (arg_tree (Var ''dir'')) = Inl (Expect ''Cannot get first pair'')"
proof -
  let ?p = "Pair R_args ''(dir)'' [arg_tree (Var ''dir'')]"
  have "conforms ?p" by (simp add: leaf_def many_def one_of_def)
  then show ?thesis
    using path_identifier_panics [of ?p "arg_tree (Var ''dir'')" "leaf R_ident ''dir''"]
    by (simp add: leaf_def)
qed

text \<open>
  A work unit nested in a work unit, which the grammar allows, always makes
  the translation of the enclosing instructions panic.
\<close>

lemma nested_work_unit_panics:
  assumes "conforms e" and "as_rule e = R_expr" and "into_inner e = [f]" and "as_rule f = R_function"
  shows "\<exists>msg. build_instr e = Inl (Panic_msg msg)"
proof -
  have "conforms f" using conforms_innerD [OF assms(1), of f] assms(3) by simp
  then show ?thesis using assms(3,4) by (intro build_instr_nested_function)
qed

lemma nested_work_unit_panics_witness:
  "\<exists>msg. build_instr (work_tree ''inner'' [] [Open (Const ''/tmp'')] []) = Inl (Panic_msg msg)"
proof -
  let ?e = "work_tree ''inner'' [] [Open (Const ''/tmp'')] []"
  have "conforms ?e" by (rule conforms_work_tree) (simp_all add: expressible_instr_def)
  then show ?thesis
    using nested_work_unit_panics [of ?e] by (simp add: work_tree_def)
qed

end
