(* ===== verification/Script_Reader.thy ===== *)
theory Script_Reader
  imports Script_Grammar Script_Props
begin

text \<open>
  How the grammar reads pieces of text: derivation rules for the operators when no
  blank intervenes, values, identifiers, and lists in parentheses.
\<close>

section \<open>Reading with the grammar\<close>

abbreviation yields :: "nat \<Rightarrow> peg \<Rightarrow> string \<Rightarrow> pair list \<Rightarrow> string \<Rightarrow> bool" where
  "yields n e s ps s' \<equiv> derive script_grammar n False e s (Some (ps, s'))"

abbreviation fails :: "nat \<Rightarrow> peg \<Rightarrow> string \<Rightarrow> bool" where
  "fails n e s \<equiv> derive script_grammar n False e s None"

inductive_simps derive_iff:
  "derive G n tight (Lit l) s r"
  "derive G n tight (Sat P) s r"
  "derive G n tight Soi s r"
  "derive G n tight (Call x) s r"
  "derive G n tight Skip s r"
  "derive G n tight (Thn a b) s r"
  "derive G n tight (Alt a b) s r"
  "derive G n tight (Opt a) s r"
  "derive G n tight (Neg a) s r"

text \<open>A text that starts neither with a blank nor with a comment.\<close>

definition blank :: "char \<Rightarrow> bool" where
  "blank c \<longleftrightarrow> c \<in> set [CHR '' '', CHR 0x09, CHR 0x0A, CHR 0x0D]"

definition solid :: "string \<Rightarrow> bool" where
  "solid s \<longleftrightarrow> (case s of [] \<Rightarrow> True | c # t \<Rightarrow> \<not> blank c \<and> \<not> (c = CHR ''/'' \<and> t \<noteq> [] \<and> hd t = CHR ''/''))"

lemma solid_simps [simp]:
  "solid []"
  "solid (c # t) \<longleftrightarrow> \<not> blank c \<and> \<not> (c = CHR ''/'' \<and> t \<noteq> [] \<and> hd t = CHR ''/'')"
  by (simp_all add: solid_def)

lemma blank_punct [simp]:
  "\<not> blank CHR '',''" "\<not> blank CHR '';''" "\<not> blank CHR '':''" "\<not> blank CHR ''=''" "\<not> blank CHR 0x22"
  "\<not> blank CHR ''(''" "\<not> blank CHR '')''" "\<not> blank CHR ''{''" "\<not> blank CHR ''}''"
  by (simp_all add: blank_def)

lemma whitespace_fails: "s = [] \<or> \<not> blank (hd s) \<Longrightarrow> derive script_grammar n True (Call WHITESPACE) s None"
  by (cases s) (auto simp: derive_iff atomic_in_def NEWLINE_def blank_def)

lemma whitespace_space: "derive script_grammar n True (Call WHITESPACE) (CHR '' '' # s) (Some ([], s))"
  by (auto simp: derive_iff atomic_in_def emit_def)

lemma comment_fails: "solid s \<Longrightarrow> derive script_grammar n True (Call COMMENT) s None"
  by (cases s; cases "tl s") (auto simp: derive_iff atomic_in_def Seq_def)

lemma skip_solid:
  assumes "solid s"
  shows "yields n Skip s [] s"
proof -
  have "s = [] \<or> \<not> blank (hd s)" using assms by (cases s) auto
  then show ?thesis
    using whitespace_fails comment_fails [OF assms]
    by (auto simp: derive_iff(5,6,8) implicit_def peg_ops)
qed

lemma lit_yields: "yields n (Lit l) (l @ s) [] s"
  by (rule d_lit)

lemma seq_yields:
  "yields n a s ps s1 \<Longrightarrow> solid s1 \<Longrightarrow> yields n b s1 qs s2 \<Longrightarrow> yields n (Seq a b) s (ps @ qs) s2"
  unfolding Seq_def using skip_solid [of s1 n] d_thn [of _ _ _ Skip s1 "[]" s1 b qs s2] by (auto intro: d_thn)

lemma seq_fails1: "fails n a s \<Longrightarrow> fails n (Seq a b) s"
  unfolding Seq_def by (rule d_thn_no1)

lemma seq_fails2: "yields n a s ps s1 \<Longrightarrow> solid s1 \<Longrightarrow> fails n b s1 \<Longrightarrow> fails n (Seq a b) s"
  unfolding Seq_def by (blast intro: d_thn_no2 skip_solid)

lemma atomic_Normal: "script_kind r = Normal \<Longrightarrow> \<not> atomic_in script_grammar False r"
  by (cases r) (simp_all add: atomic_in_def)

lemma call_yields:
  assumes "yields n (script_body r) (t @ s) ps s" and "script_kind r = Normal"
  shows "yields n (Call r) (t @ s) [Pair r t ps] s"
  using d_call [of script_grammar n False r "t @ s" ps s] assms atomic_Normal [OF assms(2)]
  by (simp add: emit_def span_def)

lemma call_fails: "fails n (script_body r) s \<Longrightarrow> script_kind r = Normal \<Longrightarrow> fails n (Call r) s"
  using d_call_no [of script_grammar n False r s] atomic_Normal [of r] by simp

lemma rep_yields:
  "solid s \<Longrightarrow> yields n e s ps s1 \<Longrightarrow> yields n (Rep e) s1 qs s2 \<Longrightarrow> yields n (Rep e) s (ps @ qs) s2"
  using d_thn [OF skip_solid [of s n]] by (fastforce intro: d_rep)

lemma rep_ends: "solid s \<Longrightarrow> fails n e s \<Longrightarrow> yields n (Rep e) s [] s"
  by (blast intro: d_rep_no d_thn_no2 skip_solid)

lemma star_yields: "yields n e s ps s1 \<Longrightarrow> yields n (Rep e) s1 qs s2 \<Longrightarrow> yields n (Star e) s (ps @ qs) s2"
  unfolding Star_def Plus_def by (blast intro: d_opt d_thn)

lemma star_ends: "fails n e s \<Longrightarrow> yields n (Star e) s [] s"
  unfolding Star_def Plus_def by (blast intro: d_opt_no d_thn_no1)

section \<open>Blanks inside a value\<close>

text \<open>In an atomic context a repetition is a star, so that one more blank is skipped like the others.\<close>

lemma star_rep_tight: "derive G n True (Star e) s r \<Longrightarrow> derive G n True (Rep e) s r"
  unfolding Star_def Plus_def
  by (auto simp: derive_iff(8,6) intro: d_rep_no d_thn_no2 d_skip_at dest: derive_Rep_Some)
     (metis append_Nil d_rep d_skip_at d_thn)

lemma skip_space: "yields n Skip s [] s' \<Longrightarrow> yields n Skip (CHR '' '' # s) [] s'"
proof -
  assume "yields n Skip s [] s'"
  then obtain s1 where 1: "derive script_grammar n True (Star (Call WHITESPACE)) s (Some ([], s1))"
    and 2: "derive script_grammar n True (Star (Thn (Call COMMENT) (Star (Call WHITESPACE)))) s1 (Some ([], s'))"
    by (auto simp: derive_iff(5,6) implicit_def)
  have "derive script_grammar n True (Star (Call WHITESPACE)) (CHR '' '' # s) (Some ([] @ [], s1))"
    unfolding Star_def Plus_def by (rule d_opt [OF d_thn [OF whitespace_space star_rep_tight [OF 1]]])
  then show ?thesis using 2 by (auto simp: derive_iff(5,6) implicit_def)
qed

lemma rep_space:
  assumes "yields n (Rep e) s [] s'" and "s \<noteq> s'"
  shows "yields n (Rep e) (CHR '' '' # s) [] s'"
  using assms(1)
proof (cases rule: derive.cases)
  case (d_rep ps s1 qs)
  then obtain s0 where "yields n Skip s [] s0" "yields n e s0 [] s1"
    by (auto simp: derive_iff(6))
  then have "yields n (Thn Skip e) (CHR '' '' # s) ([] @ []) s1" by (intro d_thn skip_space)
  with d_rep show ?thesis using derive.d_rep [of script_grammar n False e _ "[]" s1 "[]" s'] by simp
qed (use assms(2) in auto)

section \<open>Values and identifiers\<close>

definition value_char :: "char \<Rightarrow> bool" where
  "value_char c \<longleftrightarrow> ascii_alpha c \<or> ascii_digit c \<or> c \<in> set ''. /:''"

fun no_slashes :: "string \<Rightarrow> bool" where
  "no_slashes (a # b # s) \<longleftrightarrow> \<not> (a = CHR ''/'' \<and> b = CHR ''/'') \<and> no_slashes (b # s)"
| "no_slashes _ \<longleftrightarrow> True"

text \<open>A value the grammar reads as it stands: no blank at either end, and no comment in it.\<close>

definition value_ok :: "string \<Rightarrow> bool" where
  "value_ok v \<longleftrightarrow> list_all value_char v \<and> (v = [] \<or> hd v \<noteq> CHR '' '' \<and> last v \<noteq> CHR '' '') \<and> no_slashes v"

definition stops :: "char \<Rightarrow> bool" where
  "stops c \<longleftrightarrow> \<not> value_char c \<and> \<not> blank c"

abbreviation value_item :: peg where
  "value_item \<equiv> alts [Sat (\<lambda>c. ascii_alpha c \<or> ascii_digit c), Lit ''.'', Lit '' '', Lit ''/'', Lit '':'']"

lemma value_item_yields: "value_char c \<Longrightarrow> yields n value_item (c # s) [] s"
  by (auto simp: derive_iff value_char_def)

lemma value_item_fails: "\<not> value_char c \<Longrightarrow> fails n value_item (c # s)"
  by (auto simp: derive_iff value_char_def)

lemma value_blank: "value_char c \<Longrightarrow> c \<noteq> CHR '' '' \<Longrightarrow> \<not> blank c"
  by (auto simp: value_char_def blank_def ascii_alpha_def ascii_digit_def)

lemma solid_value:
  assumes "value_char x" and "x \<noteq> CHR '' ''" and "no_slashes (x # v)" and "stops c"
  shows "solid (x # v @ c # t)"
proof -
  have "c \<noteq> CHR ''/''" using assms(4) by (auto simp: stops_def value_char_def)
  then show ?thesis using assms value_blank by (cases v) auto
qed

lemma value_rep:
  "list_all value_char v \<Longrightarrow> v = [] \<or> last v \<noteq> CHR '' '' \<Longrightarrow> no_slashes v \<Longrightarrow> stops c \<Longrightarrow>
     yields n (Rep value_item) (v @ c # t) [] (c # t)"
proof (induction v)
  case Nil
  then have "solid (c # t)" by (auto simp: stops_def value_char_def)
  then show ?case using Nil value_item_fails by (auto intro!: rep_ends simp: stops_def)
next
  case (Cons x v)
  have IH: "yields n (Rep value_item) (v @ c # t) [] (c # t)"
    using Cons by (cases v) auto
  show ?case
  proof (cases "x = CHR '' ''")
    case True
    with Cons.prems(2) have "v @ c # t \<noteq> c # t" by auto
    with rep_space [OF IH] True show ?thesis by simp
  next
    case False
    have "solid (x # v @ c # t)" using Cons.prems False by (intro solid_value) auto
    from rep_yields [OF this value_item_yields IH] Cons.prems show ?thesis by simp
  qed
qed

lemma value_yields:
  assumes "value_ok v" and "stops c"
  shows "yields n (Call R_value) (v @ c # t) [leaf R_value v] (c # t)"
proof -
  have "yields n (Star value_item) (v @ c # t) [] (c # t)"
  proof (cases v)
    case Nil
    then show ?thesis using assms(2) value_item_fails star_ends by (simp add: stops_def)
  next
    case (Cons x u)
    with assms have "yields n (Rep value_item) (u @ c # t) [] (c # t)"
      by (intro value_rep) (cases u; auto simp: value_ok_def)+
    with star_yields [OF value_item_yields] assms(1) Cons show ?thesis by (fastforce simp: value_ok_def)
  qed
  then show ?thesis unfolding leaf_def by (intro call_yields) simp_all
qed

definition ident_start :: "char \<Rightarrow> bool" where
  "ident_start c \<longleftrightarrow> ascii_alpha c \<or> c \<in> set ''_$''"

definition ident_part :: "char \<Rightarrow> bool" where
  "ident_part c \<longleftrightarrow> ident_start c \<or> ascii_digit c"

definition ident_ok :: "string \<Rightarrow> bool" where
  "ident_ok v \<longleftrightarrow> (case v of [] \<Rightarrow> False | c # u \<Rightarrow> ident_start c \<and> list_all ident_part u)"

lemma ident_char_derives:
  "ident_start c \<Longrightarrow> derive script_grammar n True (Call R_ident_char) (c # s) (Some ([], s))"
  "s = [] \<or> \<not> ident_start (hd s) \<Longrightarrow> derive script_grammar n tight (Call R_ident_char) s None"
  by (cases s; auto simp: derive_iff atomic_in_def emit_def ident_start_def)+

abbreviation ident_item :: peg where
  "ident_item \<equiv> alts [Sat ascii_digit, Call R_ident_char]"

lemma ident_item_derives:
  "ident_part c \<Longrightarrow> derive script_grammar n True ident_item (c # s) (Some ([], s))"
  "\<not> ident_part c \<Longrightarrow> derive script_grammar n True ident_item (c # s) None"
  using ident_char_derives(1) [of c n s] ident_char_derives(2) [of "c # s" n True]
  by (auto simp: derive_iff(2,7) ident_part_def)

lemma ident_rep:
  "list_all ident_part v \<Longrightarrow> \<not> ident_part c \<Longrightarrow>
     derive script_grammar n True (Rep ident_item) (v @ c # t) (Some ([], c # t))"
proof (induction v)
  case Nil
  then show ?case using d_rep_no [OF d_thn_no2 [OF d_skip_at ident_item_derives(2)]] by simp
next
  case (Cons x v)
  have "derive script_grammar n True (Thn Skip ident_item) (x # v @ c # t) (Some ([] @ [], v @ c # t))"
    using d_thn [OF d_skip_at ident_item_derives(1)] Cons.prems by simp
  from d_rep [OF this] Cons show ?case by simp
qed

lemma ident_yields:
  assumes "ident_ok v" and "\<not> ident_part c"
  shows "yields n (Call R_ident) (v @ c # t) [leaf R_ident v] (c # t)"
proof -
  from assms(1) obtain x u where v: "v = x # u" "ident_start x" "list_all ident_part u"
    by (auto simp: ident_ok_def split: list.splits)
  have star: "derive script_grammar n True (Star ident_item) (u @ c # t) (Some ([], c # t))"
  proof (cases u)
    case Nil
    then show ?thesis using ident_item_derives(2) [OF assms(2)]
      by (simp del: alts.simps) (auto simp: Star_def Plus_def simp del: alts.simps intro: d_opt_no d_thn_no1)
  next
    case (Cons y w)
    with v(3) have "derive script_grammar n True (Plus ident_item) (u @ c # t) (Some ([] @ [], c # t))"
      unfolding Plus_def using ident_item_derives(1) [of y n "w @ c # t"] ident_rep [of w c n t] assms(2)
      by (intro d_thn) (auto simp del: alts.simps)
    then show ?thesis unfolding Star_def by (auto simp del: alts.simps intro: d_opt)
  qed
  have "derive script_grammar n True (script_body R_ident) (v @ c # t) (Some ([] @ [] @ [], c # t))"
    unfolding script_body.simps seqs.simps Seq_def v(1) append_Cons
    by (rule d_thn [OF ident_char_derives(1) [OF v(2)] d_thn [OF d_skip_at star]])
  then show ?thesis
    by (auto simp: derive_iff(4) atomic_in_def emit_def span_def leaf_def simp del: script_body.simps)
qed

lemma ident_fails: "s = [] \<or> \<not> ident_start (hd s) \<Longrightarrow> fails n (Call R_ident) s"
  using ident_char_derives(2) [of s n True]
  by (auto simp: derive_iff(4) [of _ _ _ R_ident] atomic_in_def Seq_def intro: d_thn_no1)

section \<open>Keywords\<close>

lemma keyword_yields:
  assumes "script_body r = Lit k" and "script_kind r = Normal"
  shows "yields n (Call r) (k @ s) [leaf r k] s"
  unfolding leaf_def using assms lit_yields by (intro call_yields) simp_all

lemma keyword_fails:
  assumes "script_body r = Lit k" and "script_kind r = Normal" and "take (length k) s \<noteq> k"
  shows "fails n (Call r) s"
  using assms d_lit_no by (intro call_fails) simp_all

text \<open>
  An identifier that starts with a keyword: what follows the keyword is the rest of
  the identifier.
\<close>

lemma keyword_prefix:
  "list_all ident_part k \<Longrightarrow> \<not> ident_part c \<Longrightarrow> k @ s = v @ c # t \<Longrightarrow> \<exists>u. v = k @ u \<and> s = u @ c # t"
proof (induction k arbitrary: v)
  case (Cons x k)
  then obtain w where "v = x # w" "k @ s = w @ c # t" by (cases v) auto
  with Cons show ?case by auto
qed simp

lemma ident_part_solid: "ident_part c \<Longrightarrow> solid (c # s)"
  by (auto simp: ident_part_def ident_start_def ascii_alpha_def ascii_digit_def blank_def)

lemma ident_ok_parts: "ident_ok v \<Longrightarrow> list_all ident_part v"
  by (cases v) (auto simp: ident_ok_def ident_part_def)

lemma ident_ok_start: "ident_ok v \<Longrightarrow> \<exists>c u. v = c # u \<and> ident_start c"
  by (cases v) (auto simp: ident_ok_def)

lemma solid_ident: "ident_ok v \<Longrightarrow> solid (v @ s)"
  using ident_ok_start [of v] ident_part_solid by (auto simp: ident_part_def simp del: solid_simps)

lemma solid_rest: "list_all ident_part u \<Longrightarrow> solid (c # t) \<Longrightarrow> solid (u @ c # t)"
  using ident_part_solid by (cases u) (auto simp del: solid_simps)

section \<open>Lists in parentheses\<close>

lemma commas_Cons: "commas (x # xs) = x @ concat (map (\<lambda>y. '','' @ y) xs)"
  by (induction xs arbitrary: x) auto

locale listed =
  fixes r :: Rule and good :: "'a \<Rightarrow> bool" and prn :: "'a \<Rightarrow> string" and tree :: "'a \<Rightarrow> pair"
  assumes item_yields: "good x \<Longrightarrow> c \<in> set '',)'' \<Longrightarrow> yields n (Call r) (prn x @ c # t) [tree x] (c # t)"
    and item_solid: "good x \<Longrightarrow> c \<in> set '',)'' \<Longrightarrow> solid (prn x @ c # t)"
    and item_not_close: "fails n (Call r) (CHR '')'' # t)"
begin

abbreviation more :: peg where
  "more \<equiv> seqs [Lit '','', Call r]"

lemma more_yields:
  assumes "good x" and "c \<in> set '',)''"
  shows "yields n more ('','' @ prn x @ c # t) [tree x] (c # t)"
  using seq_yields [OF lit_yields [of n "'',''"] item_solid [OF assms] item_yields [OF assms]] by simp

lemma more_fails: "fails n more (CHR '')'' # t)"
  unfolding seqs.simps by (rule seq_fails1, rule d_lit_no) simp

lemma rep_more:
  "list_all good xs \<Longrightarrow>
     yields n (Rep more) (concat (map (\<lambda>x. '','' @ prn x) xs) @ CHR '')'' # t) (map tree xs) (CHR '')'' # t)"
proof (induction xs)
  case Nil
  show ?case using rep_ends [of "CHR '')'' # t" n more] more_fails by simp
next
  case (Cons x xs)
  define rest where "rest = concat (map (\<lambda>x. '','' @ prn x) xs) @ CHR '')'' # t"
  obtain c u where c: "rest = c # u" "c \<in> set '',)''" by (cases xs) (auto simp: rest_def)
  have "yields n more ('','' @ prn x @ rest) [tree x] rest"
    unfolding c(1) using Cons.prems c(2) by (intro more_yields) simp_all
  from rep_yields [OF _ this Cons.IH [folded rest_def]] Cons.prems show ?case
    by (simp add: rest_def)
qed

lemma star_more:
  assumes "list_all good xs"
  shows "yields n (Star more) (concat (map (\<lambda>x. '','' @ prn x) xs) @ CHR '')'' # t) (map tree xs) (CHR '')'' # t)"
proof (cases xs)
  case Nil
  with star_ends [OF more_fails] show ?thesis by simp
next
  case (Cons x ys)
  obtain c u where c: "concat (map (\<lambda>x. '','' @ prn x) ys) @ CHR '')'' # t = c # u" "c \<in> set '',)''"
    by (cases ys) auto
  have "yields n more ('','' @ prn x @ c # u) [tree x] (c # u)"
    using assms Cons c(2) by (intro more_yields) simp_all
  from star_yields [OF this rep_more [of ys n t, unfolded c(1)]] assms Cons c(1) show ?thesis by simp
qed

lemma listing_yields:
  assumes "list_all good xs"
  shows "yields n (listing r) (parens (map prn xs) @ t) (map tree xs) t"
proof -
  let ?close = "CHR '')'' # t"
  have items: "yields n (Opt (seqs [Call r, Star more, Opt (Lit '','')])) (commas (map prn xs) @ ?close) (map tree xs) ?close"
  proof (cases xs)
    case Nil
    have "fails n (seqs [Call r, Star more, Opt (Lit '','')]) ?close"
      using seq_fails1 [OF item_not_close] by simp
    with Nil d_opt_no show ?thesis by simp
  next
    case (Cons x ys)
    define rest where "rest = concat (map (\<lambda>x. '','' @ prn x) ys) @ ?close"
    obtain c u where c: "rest = c # u" "c \<in> set '',)''" by (cases ys) (auto simp: rest_def)
    have x: "yields n (Call r) (prn x @ rest) [tree x] rest"
      unfolding c(1) using assms Cons c(2) by (intro item_yields) simp_all
    have "yields n (Opt (Lit '','')) ?close [] ?close" by (intro d_opt_no d_lit_no) simp
    from seq_yields [OF star_more _ this, of ys] assms Cons
    have ys: "yields n (Seq (Star more) (Opt (Lit '',''))) rest (map tree ys) ?close" by (simp add: rest_def)
    have "solid rest" unfolding c(1) using c(2) by auto
    from seq_yields [OF x this ys] Cons show ?thesis
      by (auto simp: commas_Cons rest_def o_def intro: d_opt)
  qed
  have start: "solid (commas (map prn xs) @ ?close)"
  proof (cases xs)
    case (Cons x ys)
    obtain c u where "concat (map (\<lambda>x. '','' @ prn x) ys) @ ?close = c # u" "c \<in> set '',)''"
      by (cases ys) auto
    with item_solid [of x c u] assms Cons show ?thesis by (simp add: commas_Cons o_def)
  qed simp
  have "yields n (Lit '')'') ?close [] t" using lit_yields [of n "'')''" t] by simp
  from seq_yields [OF lit_yields [of n "''(''"] start seq_yields [OF items _ this]]
  show ?thesis by (simp add: listing_def parens_def)
qed

end

section \<open>Repetitions of items\<close>

text \<open>
  Items one after the other, each followed by a text of which \<open>follow\<close> holds, up to a
  text on which the rule fails.
\<close>

locale repeated =
  fixes r :: Rule and good :: "'a \<Rightarrow> bool" and prn :: "'a \<Rightarrow> string" and tree :: "'a \<Rightarrow> pair"
    and follow :: "string \<Rightarrow> bool"
  assumes item_yields: "good x \<Longrightarrow> follow t \<Longrightarrow> yields n (Call r) (prn x @ t) [tree x] t"
    and item_follow: "good x \<Longrightarrow> follow t \<Longrightarrow> follow (prn x @ t)"
    and follow_solid: "follow t \<Longrightarrow> solid t"
begin

lemma follow_items: "list_all good xs \<Longrightarrow> follow t \<Longrightarrow> follow (concat (map prn xs) @ t)"
  by (induction xs) (auto intro: item_follow)

lemma rep_items:
  "list_all good xs \<Longrightarrow> follow t \<Longrightarrow> fails n (Call r) t \<Longrightarrow>
     yields n (Rep (Call r)) (concat (map prn xs) @ t) (map tree xs) t"
proof (induction xs)
  case Nil
  then show ?case by (simp add: rep_ends follow_solid)
next
  case (Cons x xs)
  then have f: "follow (concat (map prn xs) @ t)" by (simp add: follow_items)
  have "solid (prn x @ concat (map prn xs) @ t)" using Cons.prems f by (simp add: follow_solid item_follow)
  from rep_yields [OF this item_yields [OF _ f]] Cons show ?case by fastforce
qed

lemma star_items:
  assumes "list_all good xs" and "follow t" and "fails n (Call r) t"
  shows "yields n (Star (Call r)) (concat (map prn xs) @ t) (map tree xs) t"
proof (cases xs)
  case Nil
  then show ?thesis using assms(3) by (simp add: star_ends)
next
  case (Cons x ys)
  with assms have "follow (concat (map prn ys) @ t)" by (simp add: follow_items)
  from star_yields [OF item_yields [OF _ this] rep_items [of ys t n]] Cons assms show ?thesis by fastforce
qed

end

end
