(* ===== verification/Script_Text.thy ===== *)
theory Script_Text
  imports Script_Reader
begin

text \<open>
  The grammar reads the printed text of arguments, parameters, instructions,
  distributions and work units as the parse tree they were printed from.
\<close>

section \<open>Arguments\<close>

lemma lit_fails_hd: "s = [] \<or> hd s \<noteq> c \<Longrightarrow> fails n (Lit (c # k)) s"
  by (cases s) (auto intro: d_lit_no)

lemma alt_second: "fails n a s \<Longrightarrow> derive script_grammar n False b s r \<Longrightarrow> derive script_grammar n False (Alt a b) s r"
  by (rule d_alt2)

text \<open>The first keyword of a choice that matches.\<close>

lemma alts_yields:
  "(\<And>x. x \<in> set pre \<Longrightarrow> fails n (Call x) s) \<Longrightarrow> yields n (Call r) s ps s' \<Longrightarrow>
     yields n (alts (map Call (pre @ r # post))) s ps s'"
proof (induction pre)
  case Nil
  then show ?case by (cases post) (auto intro: d_alt1)
next
  case (Cons x pre)
  then have "yields n (Alt (Call x) (alts (map Call (pre @ r # post)))) s ps s'" by (auto intro: d_alt2)
  then show ?case by (cases pre) simp_all
qed

lemma keyword_choice:
  assumes "list_all (\<lambda>x. script_kind x = Normal \<and>
        (case script_body x of Lit k' \<Rightarrow> take (length k') (k @ s) \<noteq> k' | _ \<Rightarrow> False)) pre"
    and "script_body r = Lit k" and "script_kind r = Normal"
  shows "yields n (alts (map Call (pre @ r # post))) (k @ s) [leaf r k] s"
proof (rule alts_yields)
  show "yields n (Call r) (k @ s) [leaf r k] s" using assms(2,3) by (rule keyword_yields)
  show "fails n (Call x) (k @ s)" if "x \<in> set pre" for x
  proof -
    from assms(1) that obtain k' where "script_body x = Lit k'" "script_kind x = Normal"
      "take (length k') (k @ s) \<noteq> k'"
      by (cases "script_body x") (auto simp: list_all_iff simp del: take_append)
    then show ?thesis by (rule keyword_fails)
  qed
qed

lemma dynamicName_fails: "s = [] \<or> hd s \<noteq> CHR ''r'' \<Longrightarrow> fails n (Call R_dynamicName) s"
  by (rule call_fails) (auto intro!: d_alt2 call_fails lit_fails_hd)

lemma dynamic_fails: "s = [] \<or> hd s \<noteq> CHR ''r'' \<Longrightarrow> fails n (Call R_dynamic) s"
  by (rule call_fails) (auto intro: seq_fails1 dynamicName_fails)

lemma close_not_arg: "fails n (Call R_arg) (CHR '')'' # t)"
proof (rule call_fails)
  have "fails n (Call R_constant) (CHR '')'' # t)"
    by (rule call_fails)
      (auto simp: Plus_def ascii_digit_def intro!: d_alt2 seq_fails1 lit_fails_hd d_thn_no1 d_sat_no)
  then show "fails n (script_body R_arg) (CHR '')'' # t)"
    by (auto simp: ident_start_def ascii_alpha_def intro!: d_alt2 dynamic_fails ident_fails)
qed simp

lemma quote_not_ident: "\<not> ident_start CHR 0x22"
  by (simp add: ident_start_def ascii_alpha_def)

lemma quote_stops: "stops CHR 0x22"
  by (simp add: stops_def value_char_def ascii_alpha_def ascii_digit_def)

lemma solid_value_ok: "value_ok v \<Longrightarrow> stops c \<Longrightarrow> solid (v @ c # t)"
proof (cases v)
  case Nil
  assume "stops c"
  with Nil show ?thesis by (auto simp: stops_def value_char_def)
next
  case (Cons x u)
  assume "value_ok v" "stops c"
  with Cons solid_value [of x u c t] show ?thesis by (auto simp: value_ok_def)
qed

lemma const_yields:
  assumes "value_ok v"
  shows "yields n (Call R_arg) (quoted v @ t) [const_tree v] t"
proof -
  let ?q = "CHR 0x22"
  have s: "quoted v @ t = [?q] @ v @ ?q # t" by (simp add: quoted_def)
  have last: "yields n (Lit [?q]) (?q # t) [] t" using lit_yields [of n "[?q]" t] by simp
  have "yields n (seqs [Lit [?q], Call R_value, Lit [?q]]) (quoted v @ t) [leaf R_value v] t"
    unfolding s using seq_yields [OF lit_yields solid_value_ok [OF assms quote_stops]
        seq_yields [OF value_yields [OF assms quote_stops] _ last], of "[?q]"] by simp
  then have c: "yields n (Call R_constant) (quoted v @ t) [Pair R_constant (quoted v) [leaf R_value v]] t"
    by (intro call_yields) (auto intro: d_alt1)
  have "fails n (Call R_dynamic) (quoted v @ t)" "fails n (Call R_ident) (quoted v @ t)"
    using quote_not_ident by (auto simp: quoted_def intro!: dynamic_fails ident_fails)
  with c show ?thesis unfolding const_tree_def by (intro call_yields) (auto intro!: d_alt2)
qed

lemma solid_quoted: "solid (quoted v @ t)"
  by (simp add: quoted_def)

interpretation const_args: listed R_arg value_ok quoted const_tree
  by unfold_locales (simp_all add: const_yields solid_quoted close_not_arg)

fun arg_good :: "Arg \<Rightarrow> bool" where
  "arg_good (Const t) \<longleftrightarrow> value_ok t"
| "arg_good (Var v) \<longleftrightarrow> ident_ok v"
| "arg_good (Dynamic f as) \<longleftrightarrow> (f = ''random_path'' \<or> f = ''random_string'') \<and>
     list_all (\<lambda>a. is_Const a \<and> value_ok (text_of a)) as"

lemma arg_good_expressible: "arg_good a \<Longrightarrow> expressible_arg a"
  by (cases a) (auto simp: list_all_iff)

lemma args_fails: "s = [] \<or> hd s \<noteq> CHR ''('' \<Longrightarrow> fails n (Call R_args) s"
  by (rule call_fails) (auto simp: listing_def intro!: seq_fails1 lit_fails_hd)

lemma not_ident_punct [simp]:
  "\<not> ident_part CHR '',''" "\<not> ident_part CHR '')''" "\<not> ident_part CHR ''(''" "\<not> ident_part CHR ''=''"
  by (simp_all add: ident_part_def ident_start_def ascii_alpha_def ascii_digit_def)

text \<open>A helper name before anything but its arguments is no helper call.\<close>

lemma var_not_dynamic:
  assumes "ident_ok v" and "c \<in> set '',)''"
  shows "fails n (Call R_dynamic) (v @ c # t)"
proof -
  have c: "\<not> ident_part c" "solid (c # t)" "c \<noteq> CHR ''(''" using assms(2) by auto
  obtain r where r: "derive script_grammar n False (Call R_dynamicName) (v @ c # t) r"
    using script.derive_total [of False "Call R_dynamicName"] by auto
  have "fails n (script_body R_dynamic) (v @ c # t)"
  proof (cases r)
    case None
    with r show ?thesis by (auto intro: seq_fails1)
  next
    case (Some x)
    obtain ps s where x: "x = (ps, s)" by (cases x)
    from r have "v @ c # t = ''random_path'' @ s \<or> v @ c # t = ''random_string'' @ s"
      unfolding Some x by (auto simp: derive_iff(1,4,7) atomic_in_def)
    then obtain k where k: "k \<in> {''random_path'', ''random_string''}" "k @ s = v @ c # t"
      by (metis insertCI)
    have "list_all ident_part k"
      using k(1) by (auto simp: ident_part_def ident_start_def ascii_alpha_def)
    from keyword_prefix [OF this c(1) k(2)] obtain u where u: "v = k @ u" "s = u @ c # t" by blast
    have parts: "list_all ident_part u" using ident_ok_parts [OF assms(1)] u(1) by simp
    have "solid s" unfolding u(2) by (rule solid_rest [OF parts c(2)])
    moreover have "hd s \<noteq> CHR ''(''" unfolding u(2) using parts c(3) by (cases u) auto
    ultimately have "fails n (Seq (Call R_dynamicName) (Call R_args)) (v @ c # t)"
      using r [unfolded Some x] by (intro seq_fails2 args_fails) auto
    then show ?thesis by simp
  qed
  then show ?thesis by (rule call_fails) simp
qed

lemma dynamic_yields:
  assumes "arg_good (Dynamic f as)"
  shows "yields n (Call R_arg) (arg_text (Dynamic f as) @ t) [arg_tree (Dynamic f as)] t"
proof -
  let ?l = "leaf (if f = ''random_path'' then R_randomPath else R_randomString) f"
  have "yields n (script_body R_dynamicName) (f @ s) [?l] s" for s
    using assms keyword_yields [of R_randomPath f n s] keyword_yields [of R_randomString f n s]
      keyword_fails [of R_randomPath "''random_path''" "f @ s" n]
    by (auto intro: d_alt1 d_alt2)
  then have name: "yields n (Call R_dynamicName) (f @ s) [Pair R_dynamicName f [?l]] s" for s
    by (intro call_yields) simp_all
  have "list_all value_ok (map text_of as)" using assms by (auto simp: list_all_iff)
  from const_args.listing_yields [OF this, of n t]
  have args: "yields n (Call R_args) (parens (const_texts as) @ t)
      [Pair R_args (parens (const_texts as)) (map (\<lambda>a. const_tree (text_of a)) as)] t"
    by (intro call_yields) (simp_all add: const_texts_def o_def)
  have "solid (parens (const_texts as) @ t)" by (simp add: parens_def)
  from seq_yields [OF name this args]
  have "yields n (script_body R_dynamic) ((f @ parens (const_texts as)) @ t)
      [Pair R_dynamicName f [?l], Pair R_args (parens (const_texts as)) (map (\<lambda>a. const_tree (text_of a)) as)] t"
    by simp
  from call_yields [OF this]
  have "yields n (script_body R_arg) ((f @ parens (const_texts as)) @ t) (into_inner (arg_tree (Dynamic f as))) t"
    by (simp add: d_alt1)
  from call_yields [OF this] show ?thesis by simp
qed

lemma var_yields:
  assumes "ident_ok v" and "c \<in> set '',)''"
  shows "yields n (Call R_arg) (v @ c # t) [arg_tree (Var v)] (c # t)"
proof -
  have "\<not> ident_part c" using assms(2) by auto
  from ident_yields [OF assms(1) this] var_not_dynamic [OF assms]
  have "yields n (script_body R_arg) (v @ c # t) [leaf R_ident v] (c # t)"
    by (simp add: d_alt2 [OF _ d_alt1])
  from call_yields [OF this] show ?thesis by simp
qed

lemma arg_yields:
  assumes "arg_good a" and "c \<in> set '',)''"
  shows "yields n (Call R_arg) (arg_text a @ c # t) [arg_tree a] (c # t)"
proof (cases a)
  case (Const v)
  then show ?thesis using assms(1) const_yields by simp
next
  case (Var v)
  then show ?thesis using assms var_yields by simp
next
  case (Dynamic f as)
  then show ?thesis using dynamic_yields assms(1) by blast
qed

lemma helper_ident: "f = ''random_path'' \<or> f = ''random_string'' \<Longrightarrow> ident_ok f"
  by (auto simp: ident_ok_def ident_part_def ident_start_def ascii_alpha_def)

lemma solid_arg: "arg_good a \<Longrightarrow> solid (arg_text a @ t)"
  using solid_ident helper_ident by (cases a) (auto simp: solid_quoted)

interpretation args: listed R_arg arg_good arg_text arg_tree
  by unfold_locales (simp_all add: arg_yields solid_arg close_not_arg)

section \<open>Parameters and options\<close>

definition param_good :: "string \<times> string \<Rightarrow> bool" where
  "param_good kv \<longleftrightarrow> ident_ok (fst kv) \<and> value_ok (snd kv)"

lemma ident_value_yields:
  assumes "param_good kv" and "stops c"
  shows "yields n (seqs [Call R_ident, Lit ''='', Call R_value]) (fst kv @ ''='' @ snd kv @ c # t)
           [leaf R_ident (fst kv), leaf R_value (snd kv)] (c # t)"
proof -
  have k: "yields n (Call R_ident) (fst kv @ ''='' @ snd kv @ c # t) [leaf R_ident (fst kv)] (''='' @ snd kv @ c # t)"
    using ident_yields [of "fst kv" "CHR ''=''"] assms(1) by (simp add: param_good_def)
  have v: "yields n (Call R_value) (snd kv @ c # t) [leaf R_value (snd kv)] (c # t)"
    using assms by (intro value_yields) (simp_all add: param_good_def)
  have "solid (snd kv @ c # t)" using assms by (intro solid_value_ok) (simp_all add: param_good_def)
  from seq_yields [OF k _ seq_yields [OF lit_yields this v]] show ?thesis by simp
qed

lemma punct_stops: "stops CHR '',''" "stops CHR '')''" "stops CHR '';''"
  by (simp_all add: stops_def value_char_def ascii_alpha_def ascii_digit_def)

lemma punct_not_start [simp]: "\<not> ident_start CHR '')''" "\<not> ident_start CHR ''}''" "\<not> ident_start CHR ''(''"
  by (simp_all add: ident_start_def ascii_alpha_def)

interpretation params: listed R_param param_good "param_text R_param" "param_tree R_param"
proof unfold_locales
  fix kv c n t assume kv: "param_good kv" "c \<in> set '',)''"
  then have "stops c" using punct_stops by auto
  from ident_value_yields [OF kv(1) this]
  show "yields n (Call R_param) (param_text R_param kv @ c # t) [param_tree R_param kv] (c # t)"
    unfolding param_tree_def by (intro call_yields) (simp_all add: param_text_def)
  show "solid (param_text R_param kv @ c # t)"
    using kv(1) solid_ident by (simp add: param_text_def param_good_def)
next
  show "fails n (Call R_param) (CHR '')'' # t)" for n t
    by (rule call_fails) (auto intro!: seq_fails1 ident_fails)
qed

text \<open>The options of a distribution end with a semicolon each.\<close>

lemma opt_yields:
  assumes "param_good kv"
  shows "yields n (Call R_opt) (param_text R_opt kv @ t) [param_tree R_opt kv] t"
proof -
  have k: "yields n (Call R_ident) (fst kv @ ''='' @ snd kv @ '';'' @ t) [leaf R_ident (fst kv)] (''='' @ snd kv @ '';'' @ t)"
    using ident_yields [of "fst kv" "CHR ''=''"] assms by (simp add: param_good_def)
  have v: "yields n (Call R_value) (snd kv @ '';'' @ t) [leaf R_value (snd kv)] ('';'' @ t)"
    using value_yields [OF _ punct_stops(3)] assms by (simp add: param_good_def)
  have "solid (snd kv @ '';'' @ t)" using solid_value_ok [OF _ punct_stops(3)] assms by (simp add: param_good_def)
  from seq_yields [OF k _ seq_yields [OF lit_yields this seq_yields [OF v _ lit_yields]]]
  have "yields n (script_body R_opt) (param_text R_opt kv @ t) [leaf R_ident (fst kv), leaf R_value (snd kv)] t"
    by (simp add: param_text_def)
  then show ?thesis unfolding param_tree_def by (intro call_yields) simp_all
qed

interpretation opts: repeated R_opt param_good "param_text R_opt" "param_tree R_opt" solid
proof unfold_locales
  show "solid (param_text R_opt kv @ t)" if "param_good kv" for kv t
    using that solid_ident by (simp add: param_text_def param_good_def)
qed (simp_all add: opt_yields)

lemma opt_fails_close: "fails n (Call R_opt) (CHR ''}'' # t)"
  by (rule call_fails) (auto intro!: seq_fails1 ident_fails)

lemma distName_yields:
  assumes "r \<in> {R_exp, R_zipf, R_uniform}"
  shows "yields n (Call R_distName) (dist_name r @ s) [Pair R_distName (dist_name r) [leaf r (dist_name r)]] s"
proof -
  have "yields n (script_body R_distName) (dist_name r @ s) [leaf r (dist_name r)] s"
    using assms keyword_choice [where pre = "[]" and k = "dist_name r" and s = s and r = r and n = n and post = "[R_zipf, R_uniform]"]
      keyword_choice [where pre = "[R_exp]" and k = "dist_name r" and s = s and r = r and n = n and post = "[R_uniform]"]
      keyword_choice [where pre = "[R_exp, R_zipf]" and k = "dist_name r" and s = s and r = r and n = n and post = "[]"] by auto
  then show ?thesis by (rule call_yields) simp
qed

lemma dist_yields:
  assumes "r \<in> {R_exp, R_zipf, R_uniform}" and "list_all param_good os"
  shows "yields n (Call R_dist) (dist_text r os @ t) [dist_tree r os] t"
proof -
  let ?os = "concat (map (param_text R_opt) os)"
  have os: "yields n (Star (Call R_opt)) (?os @ ''}'' @ t) (map (param_tree R_opt) os) (''}'' @ t)"
    using opts.star_items [OF assms(2)] opt_fails_close by simp
  have "solid (?os @ ''}'' @ t)" using opts.follow_items [OF assms(2), of "''}'' @ t"] by simp
  from seq_yields [OF lit_yields [of n "''{''"] this seq_yields [OF os _ lit_yields]]
  have block: "yields n (seqs [Lit ''{'', Star (Call R_opt), Lit ''}'']) (''{'' @ ?os @ ''}'' @ t) (map (param_tree R_opt) os) t"
    by simp
  have "solid (dist_name r @ ''{'' @ ?os @ ''}'' @ t)" using assms(1) by (auto simp: blank_def)
  from seq_yields [OF lit_yields [of n "'':''"] this seq_yields [OF distName_yields [OF assms(1)] _ block]]
  have "yields n (script_body R_dist) (dist_text r os @ t)
      (Pair R_distName (dist_name r) [leaf r (dist_name r)] # map (param_tree R_opt) os) t"
    by (simp add: dist_text_def)
  then show ?thesis unfolding dist_tree_def by (rule call_yields) simp
qed

section \<open>Instructions\<close>

definition instr_good :: "Instruction \<Rightarrow> bool" where
  "instr_good i \<longleftrightarrow> list_all arg_good (snd (snd (call_of i)))"

lemma instr_good_expressible: "instr_good i \<Longrightarrow> expressible_instr i"
  by (auto simp: instr_good_def expressible_instr_def list_all_iff arg_good_expressible)

lemma call_of_name:
  assumes "call_of i = (r, kw, as)"
  shows "as \<noteq> []" and "ident_ok kw"
    and "yields n (Call R_funcName) (kw @ s) [Pair R_funcName kw [leaf r kw]] s"
proof -
  show "as \<noteq> []" "ident_ok kw" using assms
    by (cases i; auto simp: ident_ok_def ident_part_def ident_start_def ascii_alpha_def)+
  have "yields n (script_body R_funcName) (kw @ s) [leaf r kw] s"
    using assms keyword_choice [where pre = "[]" and k = kw and s = s and r = r and n = n and post = "[R_network, R_port, R_open, R_ping, R_debug]"]
      keyword_choice [where pre = "[R_task, R_network, R_port]" and k = kw and s = s and r = r and n = n and post = "[R_ping, R_debug]"]
      keyword_choice [where pre = "[R_task, R_network, R_port, R_open]" and k = kw and s = s and r = r and n = n and post = "[R_debug]"]
      keyword_choice [where pre = "[R_task, R_network, R_port, R_open, R_ping]" and k = kw and s = s and r = r and n = n and post = "[]"]
    by (cases i) auto
  then show "yields n (Call R_funcName) (kw @ s) [Pair R_funcName kw [leaf r kw]] s"
    by (rule call_yields) simp
qed

text \<open>An argument is not a parameter, so that an instruction is not taken for a work unit.\<close>

lemma equals_fails:
  assumes "ident_ok v" and "\<not> ident_part c" and "c \<noteq> CHR ''=''" and "solid (c # t)"
  shows "fails n (Call R_param) (v @ c # t)"
proof (rule call_fails)
  have "fails n (seqs [Lit ''='', Call R_value]) (c # t)"
    using assms(3) by (auto intro!: seq_fails1 lit_fails_hd)
  from seq_fails2 [OF ident_yields [OF assms(1,2)] assms(4) this]
  show "fails n (script_body R_param) (v @ c # t)" by simp
qed simp

lemma arg_not_param:
  assumes "arg_good a" and "c \<in> set '',)''"
  shows "fails n (Call R_param) (arg_text a @ c # t)"
proof (cases a)
  case (Const v)
  then show ?thesis using quote_not_ident
    by (auto simp: quoted_def intro!: call_fails seq_fails1 ident_fails)
next
  case (Var v)
  then show ?thesis using assms by (auto intro!: equals_fails)
next
  case (Dynamic f as)
  have "fails n (Call R_param) (f @ CHR ''('' # commas (const_texts as) @ CHR '')'' # c # t)"
    using assms(1) Dynamic by (intro equals_fails helper_ident) simp_all
  with Dynamic show ?thesis by (simp add: parens_def)
qed

lemma args_not_params:
  assumes "list_all arg_good as" and "as \<noteq> []"
  shows "fails n (Call R_params) (parens (map arg_text as) @ t)"
proof -
  from assms(2) obtain a bs where as: "as = a # bs" by (cases as) auto
  define rest where "rest = concat (map (\<lambda>x. '','' @ x) (map arg_text bs)) @ CHR '')'' # t"
  obtain c u where c: "rest = c # u" "c \<in> set '',)''" by (cases bs) (auto simp: rest_def)
  have a: "arg_good a" using assms(1) as by simp
  have s: "parens (map arg_text as) @ t = ''('' @ arg_text a @ rest"
    by (simp add: parens_def as commas_Cons rest_def)
  have "yields n (Opt (seqs [Call R_param, Star (seqs [Lit '','', Call R_param]), Opt (Lit '','')])) (arg_text a @ rest)
      [] (arg_text a @ rest)"
    using seq_fails1 [OF arg_not_param [OF a c(2)]] by (auto simp: c(1) intro: d_opt_no)
  moreover have "fails n (Lit '')'') (arg_text a @ rest)"
    using a ident_ok_start helper_ident by (cases a) (fastforce simp: quoted_def intro!: lit_fails_hd)+
  ultimately have "fails n (listing R_param) (''('' @ arg_text a @ rest)"
    using seq_fails2 [OF lit_yields [of n "''(''"] solid_arg [OF a] seq_fails2 [OF _ solid_arg [OF a]]]
    by (simp add: listing_def)
  then show ?thesis unfolding s by (intro call_fails) simp_all
qed

lemma instr_not_function:
  assumes "instr_good i"
  shows "fails n (Call R_function) (instr_text i @ t)"
proof -
  obtain r kw as where i: "call_of i = (r, kw, as)" by (cases "call_of i")
  let ?args = "parens (map arg_text as) @ '';'' @ t"
  have "list_all arg_good as" using assms by (simp add: instr_good_def i)
  from args_not_params [OF this call_of_name(1) [OF i]]
  have opt: "yields n (Opt (Call R_params)) ?args [] ?args" by (rule d_opt_no)
  obtain u where u: "?args = CHR ''('' # u" by (simp add: parens_def)
  have "yields n (Call R_ident) (kw @ ?args) [leaf R_ident kw] ?args"
    unfolding u using call_of_name(2) [OF i] by (rule ident_yields) simp
  from seq_yields [OF this _ opt] have "yields n (script_body R_work) (kw @ ?args) [leaf R_ident kw] ?args"
    by (simp add: parens_def)
  then have w: "yields n (Call R_work) (kw @ ?args) [Pair R_work kw [leaf R_ident kw]] ?args"
    by (rule call_yields) simp
  have "fails n (seqs [Lit ''{'', Call R_instructions, Lit ''}'', Opt (Call R_dist)]) ?args"
    by (auto simp: parens_def intro!: seq_fails1 lit_fails_hd)
  from seq_fails2 [OF w _ this] have "fails n (script_body R_function) (instr_text i @ t)"
    by (simp add: instr_text_def i parens_def)
  then show ?thesis by (rule call_fails) simp
qed

lemma instr_yields:
  assumes "instr_good i"
  shows "yields n (Call R_expr) (instr_text i @ t) [instr_tree i] t"
proof -
  obtain r kw as where i: "call_of i = (r, kw, as)" by (cases "call_of i")
  let ?args = "parens (map arg_text as)"
  have "list_all arg_good as" using assms by (simp add: instr_good_def i)
  from args.listing_yields [OF this]
  have "yields n (script_body R_args) (?args @ '';'' @ t) (map arg_tree as) ('';'' @ t)" by simp
  from d_opt [OF call_yields [OF this]]
  have args: "yields n (Opt (Call R_args)) (?args @ '';'' @ t) [Pair R_args ?args (map arg_tree as)] ('';'' @ t)" by simp
  have "solid (?args @ '';'' @ t)" by (simp add: parens_def)
  from seq_yields [OF call_of_name(3) [OF i] this seq_yields [OF args _ lit_yields]]
  have "yields n (script_body R_instruction) (instr_text i @ t)
      [Pair R_funcName kw [leaf r kw], Pair R_args ?args (map arg_tree as)] t"
    by (simp add: instr_text_def i)
  from call_yields [OF this]
  have "yields n (Call R_instruction) (instr_text i @ t) (into_inner (instr_tree i)) t"
    by (simp add: instr_tree_def i)
  from d_alt2 [OF instr_not_function [OF assms] this]
  have "yields n (script_body R_expr) (instr_text i @ t) (into_inner (instr_tree i)) t" by simp
  from call_yields [OF this] show ?thesis by (simp add: instr_tree_def i)
qed

lemma solid_instr: "solid (instr_text i @ t)"
  by (cases i) (simp_all add: instr_text_def blank_def)

interpretation instrs: repeated R_expr instr_good instr_text instr_tree solid
  by unfold_locales (simp_all add: instr_yields solid_instr)

section \<open>Work units\<close>

text \<open>What a work unit is printed from: the distribution with its options as they are written.\<close>

record work_src =
  ws_name :: string
  ws_params :: "(string \<times> string) list"
  ws_instrs :: "Instruction list"
  ws_dist :: "(Rule \<times> (string \<times> string) list) option"

definition dist_trees :: "work_src \<Rightarrow> pair list" where
  "dist_trees w = (case ws_dist w of None \<Rightarrow> [] | Some (r, os) \<Rightarrow> [dist_tree r os])"

definition src_text :: "work_src \<Rightarrow> string" where
  "src_text w = work_text (ws_name w) (ws_params w) (ws_instrs w) (dist_trees w)"

definition src_tree :: "work_src \<Rightarrow> pair" where
  "src_tree w = work_tree (ws_name w) (ws_params w) (ws_instrs w) (dist_trees w)"

definition src_good :: "work_src \<Rightarrow> bool" where
  "src_good w \<longleftrightarrow> ident_ok (ws_name w) \<and> list_all param_good (ws_params w) \<and>
     list_all instr_good (ws_instrs w) \<and>
     (case ws_dist w of None \<Rightarrow> True
      | Some (r, os) \<Rightarrow> (r = R_exp \<or> r = R_zipf \<or> r = R_uniform) \<and> list_all param_good os)"

text \<open>What may follow a work unit: not a distribution that would be taken for its own.\<close>

definition follow :: "string \<Rightarrow> bool" where
  "follow t \<longleftrightarrow> solid t \<and> (t = [] \<or> hd t \<noteq> CHR '':'')"

lemma expr_fails: "s = [] \<or> hd s = CHR ''}'' \<Longrightarrow> fails n (Call R_expr) s"
proof -
  assume s: "s = [] \<or> hd s = CHR ''}''"
  then have "fails n (Call R_work) s"
    by (intro call_fails) (auto intro!: seq_fails1 ident_fails)
  then have f: "fails n (Call R_function) s" by (intro call_fails) (auto intro: seq_fails1)
  have "fails n (Call R_funcName) s"
    by (rule call_fails) (use s in \<open>auto intro!: d_alt2 call_fails lit_fails_hd\<close>)
  then have "fails n (Call R_instruction) s" by (intro call_fails) (auto intro: seq_fails1)
  with f show ?thesis by (intro call_fails) (auto intro: d_alt2)
qed

lemma work_yields:
  assumes "ident_ok v" and "list_all param_good ps"
  shows "yields n (Call R_work) ((v @ parens (map (param_text R_param) ps)) @ t)
    [Pair R_work (v @ parens (map (param_text R_param) ps))
       [leaf R_ident v, Pair R_params (parens (map (param_text R_param) ps)) (map (param_tree R_param) ps)]] t"
proof -
  let ?p = "parens (map (param_text R_param) ps)"
  obtain u where u: "?p @ t = CHR ''('' # u" by (simp add: parens_def)
  have i: "yields n (Call R_ident) (v @ ?p @ t) [leaf R_ident v] (?p @ t)"
    unfolding u using assms(1) by (rule ident_yields) simp
  have "yields n (script_body R_params) (?p @ t) (map (param_tree R_param) ps) t"
    using params.listing_yields [OF assms(2)] by simp
  from d_opt [OF call_yields [OF this]]
  have p: "yields n (Opt (Call R_params)) (?p @ t) [Pair R_params ?p (map (param_tree R_param) ps)] t" by simp
  have "solid (?p @ t)" by (simp add: parens_def)
  from seq_yields [OF i this p]
  show ?thesis by (intro call_yields) simp_all
qed

lemma block_yields:
  assumes "list_all instr_good is"
  shows "yields n (Call R_instructions) (concat (map instr_text is) @ ''}'' @ t)
    [Pair R_instructions (concat (map instr_text is)) (map instr_tree is)] (''}'' @ t)"
proof (rule call_yields)
  show "yields n (script_body R_instructions) (concat (map instr_text is) @ ''}'' @ t) (map instr_tree is) (''}'' @ t)"
    using instrs.star_items [OF assms _ expr_fails, of "''}'' @ t" n] by simp
qed simp

lemma dist_opt_yields:
  assumes "src_good w" and "follow t"
  shows "yields n (Opt (Call R_dist)) (concat (map as_str (dist_trees w)) @ t) (dist_trees w) t"
proof (cases "ws_dist w")
  case None
  have "fails n (Call R_dist) t"
    by (rule call_fails) (use assms(2) in \<open>auto simp: follow_def intro!: seq_fails1 lit_fails_hd\<close>)
  then show ?thesis by (simp add: dist_trees_def None d_opt_no)
next
  case (Some ro)
  obtain r os where "ro = (r, os)" by (cases ro)
  with Some assms(1) dist_yields [of r os n t] show ?thesis
    by (auto simp: dist_trees_def src_good_def dist_tree_def intro: d_opt)
qed

lemma solid_dist: "follow t \<Longrightarrow> solid (concat (map as_str (dist_trees w)) @ t)"
  by (auto simp: dist_trees_def dist_tree_def dist_text_def follow_def split: option.split)

lemma src_yields:
  assumes "src_good w" and "follow t"
  shows "yields n (Call R_expr) (src_text w @ t) [src_tree w] t"
proof -
  let ?w = "ws_name w @ parens (map (param_text R_param) (ws_params w))"
  let ?i = "concat (map instr_text (ws_instrs w))" and ?d = "concat (map as_str (dist_trees w)) @ t"
  have good: "ident_ok (ws_name w)" "list_all param_good (ws_params w)" "list_all instr_good (ws_instrs w)"
    using assms(1) by (simp_all add: src_good_def)
  have close: "yields n (seqs [Lit ''}'', Opt (Call R_dist)]) (''}'' @ ?d) (dist_trees w) t"
    using seq_yields [OF lit_yields solid_dist [OF assms(2)] dist_opt_yields [OF assms], of n "''}''"] by simp
  have "solid (?i @ ''}'' @ ?d)" using instrs.follow_items [OF good(3), of "''}'' @ ?d"] by simp
  from seq_yields [OF lit_yields [of n "''{''"] this seq_yields [OF block_yields [OF good(3)] _ close]]
  have "yields n (seqs [Lit ''{'', Call R_instructions, Lit ''}'', Opt (Call R_dist)]) (''{'' @ ?i @ ''}'' @ ?d)
      (Pair R_instructions ?i (map instr_tree (ws_instrs w)) # dist_trees w) t" by simp
  from seq_yields [OF work_yields [OF good(1,2)] _ this]
  have "yields n (script_body R_function) (src_text w @ t) (into_inner (hd (into_inner (src_tree w)))) t"
    by (simp add: src_text_def src_tree_def work_text_def work_tree_def)
  from call_yields [OF this]
  have "yields n (script_body R_expr) (src_text w @ t) (into_inner (src_tree w)) t"
    by (auto simp: src_tree_def work_tree_def src_text_def intro: d_alt1)
  from call_yields [OF this] show ?thesis by (simp add: src_tree_def work_tree_def src_text_def)
qed

lemma src_follow: "src_good w \<Longrightarrow> follow (src_text w @ t)"
proof -
  assume "src_good w"
  then have i: "ident_ok (ws_name w)" by (simp add: src_good_def)
  from ident_ok_start [OF i] obtain c u where c: "ws_name w = c # u" "ident_start c" by blast
  have "c \<noteq> CHR '':''" "c \<noteq> CHR ''/''" using c(2) by (auto simp: ident_start_def ascii_alpha_def)
  with solid_ident [OF i] show ?thesis by (simp add: follow_def src_text_def work_text_def c(1))
qed

interpretation works: repeated R_expr src_good src_text src_tree follow
proof unfold_locales
  show "solid t" if "follow t" for t using that by (simp add: follow_def)
qed (simp_all add: src_yields src_follow)

end
