(* ===== verification/Script_Roundtrip.thy ===== *)
theory Script_Roundtrip
  imports Script_Text
begin

text \<open>
  From the text of a whole script to its syntax trees: machine blocks, files, and
  \<open>parse_instructions\<close> over any parser that implements the grammar.
\<close>

section \<open>Machine blocks\<close>

lemma show_nat_ascii: "list_all ascii_digit (show_nat k)"
  unfolding list_all_iff
proof
  fix c assume "c \<in> set (show_nat k)"
  then obtain d where "d < 10" "c = char_of_digit d" using show_nat_digits by blast
  moreover have "list_all (\<lambda>d. ascii_digit (char_of_digit d)) [0..<10]" by code_simp
  ultimately show "ascii_digit c" by (auto simp: list_all_iff)
qed

lemma digits_rep:
  "list_all ascii_digit ds \<Longrightarrow> c \<in> set '',)'' \<Longrightarrow> yields n (Rep (Sat ascii_digit)) (ds @ c # t) [] (c # t)"
proof (induction ds)
  case Nil
  then have "fails n (Sat ascii_digit) (c # t)" by (intro d_sat_no) (auto simp: ascii_digit_def)
  then show ?case using Nil by (auto intro!: rep_ends)
next
  case (Cons d ds)
  then have "yields n (Sat ascii_digit) (d # ds @ c # t) [] (ds @ c # t)" by (intro d_sat) simp
  moreover have "solid (d # ds @ c # t)" using Cons.prems by (auto simp: ascii_digit_def blank_def)
  ultimately show ?case using rep_yields [OF _ _ Cons.IH] Cons.prems by fastforce
qed

definition num_tree :: "u16 \<Rightarrow> pair" where
  "num_tree p = Pair R_arg (show_nat (unat p)) [leaf R_constant (show_nat (unat p))]"

interpretation num_args: listed R_arg "\<lambda>_. True" "\<lambda>p :: u16. show_nat (unat p)" num_tree
proof unfold_locales
  fix p :: u16 and c n t assume c: "c \<in> set '',)''"
  let ?ds = "show_nat (unat p)"
  obtain d ds where ds: "?ds = d # ds" using show_nat_not_Nil by (cases ?ds) auto
  have dig: "ascii_digit d" "list_all ascii_digit ds" using show_nat_ascii [of "unat p"] by (simp_all add: ds)
  have d: "d \<noteq> CHR 0x22" "d \<noteq> CHR ''r''" "\<not> ident_start d" "\<not> blank d" "d \<noteq> CHR ''/''"
    using dig(1) by (auto simp: ascii_digit_def ident_start_def ascii_alpha_def blank_def)
  show "solid (?ds @ c # t)" using d by (simp add: ds)
  have "yields n (Sat ascii_digit) (?ds @ c # t) [] (ds @ c # t)" unfolding ds append_Cons using dig(1) by (rule d_sat)
  from d_thn [OF this digits_rep [OF dig(2) c]]
  have "yields n (Plus (Sat ascii_digit)) (?ds @ c # t) [] (c # t)" by (simp add: Plus_def)
  moreover have "fails n (seqs [Lit [CHR 0x22], Call R_value, Lit [CHR 0x22]]) (?ds @ c # t)"
    using d(1) by (auto simp: ds intro!: seq_fails1 lit_fails_hd)
  ultimately have "yields n (script_body R_constant) (?ds @ c # t) [] (c # t)" by (simp add: d_alt2)
  from call_yields [OF this] have k: "yields n (Call R_constant) (?ds @ c # t) [leaf R_constant ?ds] (c # t)"
    by (simp add: leaf_def)
  have "fails n (Call R_dynamic) (?ds @ c # t)" "fails n (Call R_ident) (?ds @ c # t)"
    using d by (auto simp: ds intro!: dynamic_fails ident_fails)
  with k have "yields n (script_body R_arg) (?ds @ c # t) [leaf R_constant ?ds] (c # t)" by (simp add: d_alt2)
  from call_yields [OF this] show "yields n (Call R_arg) (?ds @ c # t) [num_tree p] (c # t)"
    by (simp add: num_tree_def)
qed (rule close_not_arg)

fun minstr_call :: "MachineInstruction \<Rightarrow> Rule \<times> string \<times> string \<times> pair" where
  "minstr_call (Server p) = (R_server, ''server'', show_nat (unat p), num_tree p)"
| "minstr_call (Profile t) = (R_profile, ''profile'', t, arg_tree (Var t))"
| "minstr_call (Path t) = (R_path, ''path'', quoted t, const_tree t)"

fun minstr_good :: "MachineInstruction \<Rightarrow> bool" where
  "minstr_good (Server p) \<longleftrightarrow> True"
| "minstr_good (Profile t) \<longleftrightarrow> ident_ok t"
| "minstr_good (Path t) \<longleftrightarrow> value_ok t"

definition minstr_text :: "MachineInstruction \<Rightarrow> string" where
  "minstr_text m = (case minstr_call m of (r, kw, a, p) \<Rightarrow> kw @ parens [a] @ '';'')"

definition minstr_tree :: "MachineInstruction \<Rightarrow> pair" where
  "minstr_tree m = (case minstr_call m of (r, kw, a, p) \<Rightarrow>
     Pair R_machineInstruction (minstr_text m)
       [Pair R_mInstrName kw [leaf r kw], Pair R_args (parens [a]) [p]])"

lemma minstr_args:
  assumes "minstr_good m" and "minstr_call m = (r, kw, a, p)"
  shows "yields n (Call R_args) (parens [a] @ t) [Pair R_args (parens [a]) [p]] t"
proof -
  have "yields n (listing R_arg) (parens [a] @ t) [p] t"
    using assms num_args.listing_yields [of "[_]"] args.listing_yields [of "[Var a]"]
      const_args.listing_yields [of "[_]"]
    by (cases m) fastforce+
  then show ?thesis by (intro call_yields) simp_all
qed

lemma minstr_name:
  assumes "minstr_call m = (r, kw, a, p)"
  shows "yields n (Call R_mInstrName) (kw @ s) [Pair R_mInstrName kw [leaf r kw]] s"
proof -
  have "yields n (script_body R_mInstrName) (kw @ s) [leaf r kw] s"
    using assms
      keyword_choice [where pre = "[]" and k = kw and s = s and r = r and n = n
        and post = "[R_load, R_memory, R_profile, R_path]"]
      keyword_choice [where pre = "[R_server, R_load, R_memory]" and k = kw and s = s and r = r and n = n
        and post = "[R_path]"]
      keyword_choice [where pre = "[R_server, R_load, R_memory, R_profile]" and k = kw and s = s and r = r
        and n = n and post = "[]"]
    by (cases m) auto
  then show ?thesis by (rule call_yields) simp
qed

lemma minstr_yields:
  assumes "minstr_good m"
  shows "yields n (Call R_machineInstruction) (minstr_text m @ t) [minstr_tree m] t"
proof -
  obtain r kw a p where m: "minstr_call m = (r, kw, a, p)" by (cases "minstr_call m")
  have "solid (parens [a] @ '';'' @ t)" by (simp add: parens_def)
  from seq_yields [OF minstr_name [OF m] this seq_yields [OF d_opt [OF minstr_args [OF assms m]] _ lit_yields]]
  have "yields n (script_body R_machineInstruction) (minstr_text m @ t) (into_inner (minstr_tree m)) t"
    by (simp add: minstr_text_def minstr_tree_def m)
  from call_yields [OF this] show ?thesis by (simp add: minstr_tree_def m)
qed

interpretation minstrs: repeated R_machineInstruction minstr_good minstr_text minstr_tree solid
proof unfold_locales
  show "solid (minstr_text m @ t)" for m t by (cases m) (simp_all add: minstr_text_def blank_def)
qed (simp_all add: minstr_yields)

definition machine_text :: "MachineInstruction list \<Rightarrow> string" where
  "machine_text ms = ''machine{'' @ concat (map minstr_text ms) @ ''}''"

definition machine_tree :: "MachineInstruction list \<Rightarrow> pair" where
  "machine_tree ms = Pair R_machine (machine_text ms) (map minstr_tree ms)"

lemma machine_yields:
  assumes "list_all minstr_good ms"
  shows "yields n (Call R_machine) (machine_text ms @ t) [machine_tree ms] t"
proof -
  let ?b = "concat (map minstr_text ms) @ ''}'' @ t"
  have "fails n (Call R_mInstrName) (''}'' @ t)"
    by (rule call_fails) (auto intro!: d_alt2 call_fails lit_fails_hd)
  then have "fails n (Call R_machineInstruction) (''}'' @ t)" by (intro call_fails) (auto intro: seq_fails1)
  with assms have items: "yields n (Star (Call R_machineInstruction)) ?b (map minstr_tree ms) (''}'' @ t)"
    by (intro minstrs.star_items) auto
  have "solid ?b" using minstrs.follow_items [OF assms, of "''}'' @ t"] by simp
  from seq_yields [OF lit_yields [of n "''{''"] this seq_yields [OF items _ lit_yields]]
  have b: "yields n (seqs [Lit ''{'', Star (Call R_machineInstruction), Lit ''}'']) (''{'' @ ?b) (map minstr_tree ms) t"
    by simp
  have "solid (''{'' @ ?b)" by simp
  from seq_yields [OF lit_yields [of n "''machine''"] this b]
  have "yields n (script_body R_machine) (machine_text ms @ t) (map minstr_tree ms) t"
    by (simp add: machine_text_def)
  then show ?thesis unfolding machine_tree_def by (rule call_yields) simp
qed

section \<open>Files\<close>

definition script_text :: "MachineInstruction list option \<Rightarrow> work_src list \<Rightarrow> string" where
  "script_text m ws = (case m of None \<Rightarrow> [] | Some ms \<Rightarrow> machine_text ms) @ concat (map src_text ws)"

definition script_tree :: "MachineInstruction list option \<Rightarrow> work_src list \<Rightarrow> pair" where
  "script_tree m ws = Pair R_file (script_text m ws)
     ((case m of None \<Rightarrow> [] | Some ms \<Rightarrow> [machine_tree ms]) @ map src_tree ws @ [leaf EOI []])"

definition machine_good :: "MachineInstruction list option \<Rightarrow> bool" where
  "machine_good m \<longleftrightarrow> (case m of None \<Rightarrow> True | Some ms \<Rightarrow> list_all minstr_good ms)"

lemma work_not_machine:
  assumes "src_good w"
  shows "fails n (Call R_machine) (src_text w @ t)"
proof (rule call_fails)
  obtain u where u: "src_text w @ t = ws_name w @ CHR ''('' # u"
    by (simp add: src_text_def work_text_def parens_def)
  have i: "ident_ok (ws_name w)" using assms by (simp add: src_good_def)
  show "fails n (script_body R_machine) (src_text w @ t)"
  proof (cases "take (length ''machine'') (src_text w @ t) = ''machine''")
    case False
    from seq_fails1 [OF d_lit_no [OF this]] show ?thesis by simp
  next
    case True
    then obtain s where s: "''machine'' @ s = ws_name w @ CHR ''('' # u"
      unfolding u by (metis append_take_drop_id)
    have "list_all ident_part ''machine''" by (simp add: ident_part_def ident_start_def ascii_alpha_def)
    from keyword_prefix [OF this _ s] obtain v where v: "ws_name w = ''machine'' @ v" "s = v @ CHR ''('' # u" by auto
    have parts: "list_all ident_part v" using ident_ok_parts [OF i] by (simp add: v(1))
    have so: "solid s" unfolding v(2) by (rule solid_rest [OF parts]) simp
    have "hd s \<noteq> CHR ''{''" unfolding v(2) using parts
      by (cases v) (auto simp: ident_part_def ident_start_def ascii_alpha_def ascii_digit_def)
    then have "fails n (seqs [Lit ''{'', Star (Call R_machineInstruction), Lit ''}'']) s"
      by (auto intro!: seq_fails1 lit_fails_hd)
    from seq_fails2 [OF lit_yields [of n "''machine''"] so this] show ?thesis unfolding u s [symmetric] by simp
  qed
qed simp

lemma machine_opt_yields:
  assumes "machine_good m" and "list_all src_good ws"
  shows "yields n (Opt (Call R_machine)) (script_text m ws)
    (case m of None \<Rightarrow> [] | Some ms \<Rightarrow> [machine_tree ms]) (concat (map src_text ws))"
proof (cases m)
  case None
  have "fails n (Call R_machine) (concat (map src_text ws))"
  proof (cases ws)
    case Nil
    have "fails n (Lit ''machine'') []" by (rule d_lit_no) simp
    with Nil show ?thesis by (auto intro!: call_fails seq_fails1)
  next
    case (Cons w ws')
    then show ?thesis using assms(2) work_not_machine by simp
  qed
  with None show ?thesis by (simp add: script_text_def d_opt_no)
next
  case (Some ms)
  then show ?thesis using assms(1) machine_yields by (simp add: script_text_def machine_good_def d_opt)
qed

lemma eoi_yields: "yields n (Call EOI) [] [leaf EOI []] []"
proof -
  have "yields n (script_body EOI) ([] @ []) [] []" by (auto simp: ANY_def intro!: d_neg d_sat_no)
  from call_yields [OF this] show ?thesis by (simp add: leaf_def)
qed

lemma file_yields:
  assumes "machine_good m" and "list_all src_good ws"
  shows "grammar_parse (script_text m ws) = Some (script_tree m ws)"
proof -
  let ?s = "script_text m ws" and ?ws = "concat (map src_text ws)"
  let ?n = "length ?s"
  have ws: "follow ?ws" using works.follow_items [OF assms(2), of "[]"] by (simp add: follow_def)
  have "yields ?n (Star (Call R_expr)) ?ws (map src_tree ws) []"
    using works.star_items [OF assms(2) _ expr_fails, of "[]" ?n] by (simp add: follow_def)
  from seq_yields [OF this _ eoi_yields]
  have rest: "yields ?n (seqs [Star (Call R_expr), Call EOI]) ?ws (map src_tree ws @ [leaf EOI []]) []" by simp
  have "solid ?ws" using ws by (simp add: follow_def)
  note m = seq_yields [OF machine_opt_yields [OF assms] this rest]
  have "solid ?s" using \<open>solid ?ws\<close> by (cases m) (simp_all add: script_text_def machine_text_def blank_def)
  from seq_yields [OF d_soi [of ?s ?n] this m]
  have "yields ?n (script_body R_file) (?s @ []) (into_inner (script_tree m ws)) []"
    by (simp add: script_tree_def)
  from call_yields [OF this] show ?thesis
    by (simp add: grammar_parse_derive script_tree_def)
qed

section \<open>The syntax tree\<close>

lemma u16_from_str_show [simp]: "u16_from_str (show_nat (unat p)) = Some p" for p :: u16
  by (simp add: u16_from_str_def parse_simps)

lemma build_minstr_tree: "build_minstr (minstr_tree m) = Inr m"
  by (cases m) (simp_all add: build_minstr_def minstr_tree_def minstr_text_def num_tree_def leaf_def
      const_tree_def first_nested_pair_def pair_to_string_def string_from_argument_def string_from_pair_def)

lemma build_machine_tree: "build_ast_from_expr (machine_tree ms) = Inr (Machine ms)"
proof -
  have "traverse build_minstr (map minstr_tree ms) = Inr (map (\<lambda>m. m) ms)"
    by (rule traverse_map_Inr) (simp add: build_minstr_tree)
  then show ?thesis by (simp add: machine_tree_def build_ast_from_minstr_def)
qed

text \<open>The text of the rate of a distribution, and the node of a work unit.\<close>

definition rate_of :: "(string \<times> string) list \<Rightarrow> string" where
  "rate_of os = (case map_of (rev os) ''rate'' of Some s \<Rightarrow> s | None \<Rightarrow> ''0'')"

definition rate_good :: "work_src \<Rightarrow> bool" where
  "rate_good w \<longleftrightarrow> (case ws_dist w of None \<Rightarrow> True | Some (r, os) \<Rightarrow> f64_from_str (rate_of os) \<noteq> None)"

definition src_node :: "work_src \<Rightarrow> Node" where
  "src_node w = Work (ws_name w) (map_of (rev (ws_params w))) (ws_instrs w)
     (case ws_dist w of None \<Rightarrow> None | Some (r, os) \<Rightarrow> map_option Exp (f64_from_str (rate_of os)))"

lemma build_src_tree:
  assumes "src_good w" and "rate_good w"
  shows "build_ast_from_expr (src_tree w) = Inr (src_node w)"
proof -
  have "list_all expressible_instr (ws_instrs w)"
    using assms(1) by (auto simp: src_good_def list_all_iff instr_good_expressible)
  from build_work_tree [OF this] assms show ?thesis
    by (auto simp: src_tree_def src_node_def dist_trees_def build_dist_tree rate_good_def rate_of_def
        split: option.splits)
qed

definition script_nodes :: "MachineInstruction list option \<Rightarrow> work_src list \<Rightarrow> Node list" where
  "script_nodes m ws = (case m of None \<Rightarrow> [] | Some ms \<Rightarrow> [Machine ms]) @ map src_node ws"

lemma build_script_tree:
  assumes "machine_good m" and "list_all src_good ws" and "list_all rate_good ws"
  shows "traverse build_ast_from_expr (file_exprs [script_tree m ws]) = Inr (script_nodes m ws)"
proof -
  have "filter (\<lambda>i. as_rule i = R_expr \<or> as_rule i = R_machine) (map src_tree ws) = map src_tree ws"
    by (auto simp: filter_id_conv src_tree_def work_tree_def)
  then have exprs: "file_exprs [script_tree m ws] =
      (case m of None \<Rightarrow> [] | Some ms \<Rightarrow> [machine_tree ms]) @ map src_tree ws"
    by (cases m) (simp_all add: file_exprs_def script_tree_def leaf_def machine_tree_def)
  have "list_all2 (\<lambda>x y. build_ast_from_expr x = Inr y) (map src_tree ws) (map src_node ws)"
    using assms(2,3) by (simp add: list_all2_conv_all_nth list_all_length build_src_tree)
  then show ?thesis
    unfolding exprs traverse_eq_Inr script_nodes_def by (cases m) (simp_all add: build_machine_tree)
qed

section \<open>Any parser that implements the grammar\<close>

text \<open>
  What the generated parser promises: it accepts what the grammar accepts, with
  the pairs of the grammar, and returns an error for every other text.
\<close>

locale generated_parser =
  fixes parse :: "string \<Rightarrow> 'e + pair list"
  assumes accepts: "grammar_parse s = Some p \<Longrightarrow> parse s = Inr [p]"
    and rejects: "grammar_parse s = None \<Longrightarrow> \<exists>e. parse s = Inl e"
begin

lemma instructions_of_pair:
  "grammar_parse s = Some p \<Longrightarrow>
     parse_instructions parse s = map_res Inr (traverse build_ast_from_expr (file_exprs [p]))"
  by (simp add: parse_instructions_def accepts)

lemma instructions_of_script:
  assumes "machine_good m" and "list_all src_good ws" and "list_all rate_good ws"
  shows "parse_instructions parse (script_text m ws) = Inr (Inr (script_nodes m ws))"
  using instructions_of_pair [OF file_yields [OF assms(1,2)]] build_script_tree [OF assms] by simp

lemma instructions_succeed_iff:
  assumes "grammar_parse s = Some p"
  shows "(\<exists>ns. parse_instructions parse s = Inr (Inr ns)) \<longleftrightarrow> list_all node_ok (butlast (into_inner p))"
  using script_accepted_iff_supported [of parse s p] accepts [OF assms] parsed_pair(1,2) [OF assms] by blast

end

definition reference_parse :: "string \<Rightarrow> unit + pair list" where
  "reference_parse s = (case grammar_parse s of None \<Rightarrow> Inl () | Some p \<Rightarrow> Inr [p])"

interpretation reference: generated_parser reference_parse
  by unfold_locales (simp_all add: reference_parse_def)

section \<open>Properties\<close>

text \<open>
  C4: for every text there are three outcomes. A text the grammar does not accept
  gives the parser's error. Of the others, those whose pairs are supported give
  syntax trees: no instruction at the top level, no nested work unit, every work
  unit with a parameter list, every instruction one of \<open>task\<close>, \<open>open\<close>, \<open>debug\<close> and
  \<open>ping\<close> with at least one argument, no unquoted number as an argument, machine
  instructions \<open>server\<close> with a 16-bit port, \<open>profile\<close>, and \<open>path\<close> with a quoted
  constant, and a rate that is a number. All the rest make the program panic.
\<close>

theorem script_outcomes:
  assumes "generated_parser parse"
  shows "case grammar_parse s of
           None \<Rightarrow> \<exists>e. parse_instructions parse s = Inr (Inl e)
         | Some p \<Rightarrow>
             if list_all node_ok (butlast (into_inner p))
             then \<exists>ns. parse_instructions parse s = Inr (Inr ns)
             else \<exists>pc. parse_instructions parse s = Inl pc"
proof (cases "grammar_parse s")
  case None
  from generated_parser.rejects [OF assms this] None show ?thesis by (auto simp: parse_instructions_def)
next
  case (Some p)
  have "parse_instructions parse s \<noteq> Inr (Inl e)" for e
    by (simp add: generated_parser.instructions_of_pair [OF assms Some] map_res_eq_Inr)
  then show ?thesis
    using generated_parser.instructions_succeed_iff [OF assms Some] Some
    by (cases "parse_instructions parse s") (auto, metis sumE)
qed

theorem script_outcomes_witness:
  "\<exists>ns. parse_instructions reference_parse small_script = Inr (Inr ns)"
proof -
  have "(case grammar_parse small_script of None \<Rightarrow> False | Some p \<Rightarrow> list_all node_ok (butlast (into_inner p)))"
    by code_simp
  with script_outcomes [OF reference.generated_parser_axioms, of small_script] show ?thesis
    by (auto split: option.splits)
qed

text \<open>
  C19: every script over expressible parts is read back from its text: the machine
  block, and each work unit with its name, its parameters (a later one with the
  same name winning), its instructions in order and a distribution, which is an
  exponential one whatever its name. Its texts may hold blanks between words, but
  not at either end, and no two slashes in a row.
\<close>

theorem script_text_roundtrip:
  assumes "generated_parser parse" and "machine_good m" and "list_all src_good ws" and "list_all rate_good ws"
  shows "parse_instructions parse (script_text m ws) = Inr (Inr (script_nodes m ws))"
  using generated_parser.instructions_of_script [OF assms] .

definition demo_src :: work_src where
  "demo_src = \<lparr>ws_name = ''random'', ws_params = [(''workers'', ''10''), (''duration'', ''100'')],
     ws_instrs = [Open (Dynamic ''random_path'' [Const ''/tmp'']), Debug (Const ''run task stub''), Task (Var ''stub'') []],
     ws_dist = Some (R_exp, [(''rate'', ''100.0'')])\<rparr>"

theorem script_text_roundtrip_witness:
  "script_nodes (Some [Server 8080, Path ''/opt/data'']) [demo_src] =
     [Machine [Server 8080, Path ''/opt/data''],
      Work ''random'' [''workers'' \<mapsto> ''10'', ''duration'' \<mapsto> ''100'']
        [Open (Dynamic ''random_path'' [Const ''/tmp'']), Debug (Const ''run task stub''), Task (Var ''stub'') []]
        (Some (Exp (Fin 100)))] \<and>
   parse_instructions reference_parse (script_text (Some [Server 8080, Path ''/opt/data'']) [demo_src]) =
     Inr (Inr (script_nodes (Some [Server 8080, Path ''/opt/data'']) [demo_src]))"
proof
  have "machine_good (Some [Server 8080, Path ''/opt/data''])" "list_all src_good [demo_src]" by code_simp+
  moreover have "list_all rate_good [demo_src]"
    by (simp add: demo_src_def rate_good_def rate_of_def f64_from_str_100)
  ultimately show "parse_instructions reference_parse (script_text (Some [Server 8080, Path ''/opt/data'']) [demo_src]) =
     Inr (Inr (script_nodes (Some [Server 8080, Path ''/opt/data'']) [demo_src]))"
    by (rule script_text_roundtrip [OF reference.generated_parser_axioms])
qed (simp add: script_nodes_def src_node_def demo_src_def rate_of_def f64_from_str_100 fun_upd_twist)

end
