(* ===== verification/Script_Scan.thy ===== *)
theory Script_Scan
  imports Script_Roundtrip
begin

text \<open>
  A reader for the grammar that is quick enough to evaluate whole scripts: implicit
  whitespace is skipped in one sweep and the text of a rule is collected on the
  way. What it returns is what the reference semantics derives.
\<close>

section \<open>Blanks and comments\<close>

definition line_end :: "char \<Rightarrow> bool" where
  "line_end c \<longleftrightarrow> c = CHR 0x0A \<or> c = CHR 0x0D"

fun strip :: "string \<Rightarrow> string \<Rightarrow> string option" where
  "strip [] s = Some s"
| "strip (a # l) [] = None"
| "strip (a # l) (c # s) = (if a = c then strip l s else None)"

lemma strip_Some: "strip l s = Some s' \<longleftrightarrow> s = l @ s'"
  by (induction l s rule: strip.induct) auto

function comments :: "string \<Rightarrow> string \<times> string" where
  "comments s =
     (case strip ''//'' s of
        None \<Rightarrow> ([], s)
      | Some u \<Rightarrow>
          let v = dropWhile (\<lambda>c. \<not> line_end c) u
          in case comments (dropWhile blank v) of
               (t, s') \<Rightarrow> (''//'' @ takeWhile (\<lambda>c. \<not> line_end c) u @ takeWhile blank v @ t, s'))"
  by pat_completeness auto
termination
proof (relation "measure length")
  fix s u v :: string
  assume "strip ''//'' s = Some u" and "v = dropWhile (\<lambda>c. \<not> line_end c) u"
  moreover have "length (dropWhile blank (dropWhile (\<lambda>c. \<not> line_end c) u)) \<le> length u"
    using length_dropWhile_le order_trans by blast
  ultimately show "(dropWhile blank v, s) \<in> measure length" by (auto simp: strip_Some)
qed simp

declare comments.simps [simp del]

definition trim :: "string \<Rightarrow> string \<times> string" where
  "trim s = (case comments (dropWhile blank s) of (t, s') \<Rightarrow> (takeWhile blank s @ t, s'))"

section \<open>The reader\<close>

text \<open>
  A reading runs out of fuel, fails, or gives the pairs, the text that was read
  and the rest.
\<close>

datatype reading = Stuck | No | Got "pair list" string string

fun read :: "nat \<Rightarrow> nat \<Rightarrow> bool \<Rightarrow> peg \<Rightarrow> string \<Rightarrow> reading" where
  "read n f tight (Lit l) s = (case strip l s of None \<Rightarrow> No | Some s' \<Rightarrow> Got [] l s')"
| "read n f tight (Sat P) s =
     (case s of [] \<Rightarrow> No | c # s' \<Rightarrow> if P c then Got [] [c] s' else No)"
| "read n f tight Soi s = (if length s = n then Got [] [] s else No)"
| "read n 0 tight (Call r) s = Stuck"
| "read n (Suc f) tight (Call r) s =
     (case read n f (atomic_in script_grammar tight r) (script_body r) s of
        Got ps t s' \<Rightarrow> Got (if tight then [] else if script_kind r = Silent then ps else [Pair r t ps]) t s'
      | x \<Rightarrow> x)"
| "read n f tight Skip s = (if tight then Got [] [] s else (case trim s of (t, s') \<Rightarrow> Got [] t s'))"
| "read n f tight (Thn a b) s =
     (case read n f tight a s of
        Got ps t s1 \<Rightarrow>
          (case read n f tight b s1 of Got qs u s2 \<Rightarrow> Got (ps @ qs) (t @ u) s2 | x \<Rightarrow> x)
      | x \<Rightarrow> x)"
| "read n f tight (Alt a b) s = (case read n f tight a s of No \<Rightarrow> read n f tight b s | x \<Rightarrow> x)"
| "read n f tight (Opt a) s = (case read n f tight a s of No \<Rightarrow> Got [] [] s | x \<Rightarrow> x)"
| "read n f tight (Neg a) s =
     (case read n f tight a s of Stuck \<Rightarrow> Stuck | No \<Rightarrow> Got [] [] s | Got ps t s' \<Rightarrow> No)"
| "read n 0 tight (Rep a) s = Stuck"
| "read n (Suc f) tight (Rep a) s =
     (case (if tight then ([], s) else trim s) of
        (t0, s0) \<Rightarrow>
          (case read n (Suc f) tight a s0 of
             Got ps t s1 \<Rightarrow>
               (case read n f tight (Rep a) s1 of Got qs u s2 \<Rightarrow> Got (ps @ qs) (t0 @ t @ u) s2 | x \<Rightarrow> x)
           | No \<Rightarrow> Got [] [] s
           | Stuck \<Rightarrow> Stuck))"

section \<open>Skipping is implicit whitespace\<close>

lemma whitespace_derives: "blank c \<Longrightarrow> derive script_grammar n True (Call WHITESPACE) (c # s)
   (Some ([], if c = CHR 0x0D \<and> s \<noteq> [] \<and> hd s = CHR 0x0A then tl s else s))"
  by (cases s) (auto simp: derive_iff atomic_in_def emit_def NEWLINE_def blank_def)

lemma rep_star_tight: "derive G n True (Rep e) s r \<Longrightarrow> derive G n True (Star e) s r"
  by (erule derive.cases) (auto simp: Star_def Plus_def derive_iff(5,6) intro: derive.intros)

lemma star_tight: "derive G n True (Star e) s r \<longleftrightarrow> derive G n True (Rep e) s r"
  using star_rep_tight rep_star_tight by blast

lemma tight_rep: "derive G n True e s (Some ([], s1)) \<Longrightarrow> derive G n True (Star e) s1 (Some ([], s2)) \<Longrightarrow>
   derive G n True (Star e) s (Some ([], s2))"
  unfolding star_tight using d_rep [of G n True e s "[]" s1 "[]" s2] d_thn [OF d_skip_at] by fastforce

lemma blanks_derive: "derive script_grammar n True (Star (Call WHITESPACE)) s (Some ([], dropWhile blank s))"
proof (induction s rule: length_induct)
  case (1 s)
  show ?case
  proof (cases "s = [] \<or> \<not> blank (hd s)")
    case True
    then have "dropWhile blank s = s" by (cases s) auto
    with whitespace_fails [OF True] show ?thesis
      unfolding Star_def Plus_def by (auto intro: d_opt_no d_thn_no1)
  next
    case False
    then obtain c t where s: "s = c # t" "blank c" by (cases s) auto
    let ?t = "if c = CHR 0x0D \<and> t \<noteq> [] \<and> hd t = CHR 0x0A then tl t else t"
    have "dropWhile blank ?t = dropWhile blank s" using s by (cases t) (auto simp: blank_def)
    moreover have "length ?t < length s" using s(1) by (auto simp: le_imp_less_Suc)
    ultimately show ?thesis using 1 tight_rep [OF whitespace_derives [OF s(2)], of n t "dropWhile blank s"] s(1)
      by metis
  qed
qed

lemma line_derives: "derive script_grammar n True (Star (Seq (Neg NEWLINE) ANY)) s
    (Some ([], dropWhile (\<lambda>c. \<not> line_end c) s))"
proof (induction s)
  case Nil
  show ?case by (auto simp: star_tight ANY_def Seq_def derive_iff NEWLINE_def intro!: d_rep_no)
next
  case (Cons c s)
  show ?case
  proof (cases "line_end c")
    case True
    then show ?thesis
      by (cases s) (auto simp: star_tight ANY_def Seq_def derive_iff NEWLINE_def line_end_def intro!: d_rep_no)
  next
    case False
    have "derive script_grammar n True (Seq (Neg NEWLINE) ANY) (c # s) (Some ([], s))"
      using False by (auto simp: ANY_def Seq_def derive_iff NEWLINE_def line_end_def)
    from tight_rep [OF this Cons.IH] False show ?thesis by simp
  qed
qed

lemma comment_derives:
  "derive script_grammar n True (Call COMMENT) (''//'' @ u) (Some ([], dropWhile (\<lambda>c. \<not> line_end c) u))"
  using line_derives [of n u] d_lit [of script_grammar n True "''//''" u]
  by (auto simp: derive_iff(4,5,6) Seq_def atomic_in_def emit_def)

lemma comments_derive:
  "comments s = (t, s') \<Longrightarrow> s = t @ s' \<and>
     derive script_grammar n True (Star (Thn (Call COMMENT) (Star (Call WHITESPACE)))) s (Some ([], s'))"
proof (induction s arbitrary: t s' rule: comments.induct)
  case (1 s)
  show ?case
  proof (cases "strip ''//'' s")
    case None
    then have "take 2 s \<noteq> ''//''" by (metis append_take_drop_id option.distinct(1) strip_Some)
    then have "derive script_grammar n True (Call COMMENT) s None"
      by (auto simp: derive_iff(1,4,6) Seq_def atomic_in_def numeral_2_eq_2)
    with None 1(2) show ?thesis
      unfolding Star_def [of "Thn _ _"] Plus_def [of "Thn _ _"]
      by (auto simp: comments.simps [of s] intro: d_opt_no d_thn_no1)
  next
    case (Some u)
    let ?v = "dropWhile (\<lambda>c. \<not> line_end c) u"
    from Some 1(2) obtain t1 where c: "comments (dropWhile blank ?v) = (t1, s')"
      and t: "t = ''//'' @ takeWhile (\<lambda>c. \<not> line_end c) u @ takeWhile blank ?v @ t1"
      by (auto simp: comments.simps [of s] Let_def split: prod.splits)
    note IH = 1(1) [OF Some refl c]
    have s: "s = ''//'' @ u" using Some by (simp only: strip_Some)
    have "u = takeWhile (\<lambda>c. \<not> line_end c) u @ takeWhile blank ?v @ dropWhile blank ?v" by simp
    with s t IH have "s = t @ s'" by (metis append_assoc)
    from d_thn [OF comment_derives blanks_derive]
    have "derive script_grammar n True (Thn (Call COMMENT) (Star (Call WHITESPACE))) s
        (Some ([], dropWhile blank ?v))" unfolding s by fastforce
    from tight_rep [OF this] IH \<open>s = t @ s'\<close> show ?thesis by blast
  qed
qed

lemma trim_derives:
  assumes "trim s = (t, s')"
  shows "s = t @ s'" and "yields n Skip s [] s'"
proof -
  from assms obtain t1 where c: "comments (dropWhile blank s) = (t1, s')" and t: "t = takeWhile blank s @ t1"
    by (auto simp: trim_def split: prod.splits)
  note d = comments_derive [OF c, of n]
  show "s = t @ s'" using d t by (metis append_assoc takeWhile_dropWhile_id)
  from d have "derive script_grammar n True implicit s (Some ([] @ [], s'))"
    unfolding implicit_def by (blast intro: d_thn blanks_derive)
  then show "yields n Skip s [] s'" by (simp add: d_skip)
qed

section \<open>The reader and the reference semantics\<close>

definition reads :: "nat \<Rightarrow> bool \<Rightarrow> peg \<Rightarrow> string \<Rightarrow> reading \<Rightarrow> bool" where
  "reads n tight e s x \<longleftrightarrow>
     (case x of
        Stuck \<Rightarrow> True
      | No \<Rightarrow> derive script_grammar n tight e s None
      | Got ps t s' \<Rightarrow> s = t @ s' \<and> derive script_grammar n tight e s (Some (ps, s')))"

lemma reads_simps [simp]:
  "reads n tight e s Stuck"
  "reads n tight e s No \<longleftrightarrow> derive script_grammar n tight e s None"
  "reads n tight e s (Got ps t s') \<longleftrightarrow> s = t @ s' \<and> derive script_grammar n tight e s (Some (ps, s'))"
  by (simp_all add: reads_def)

lemma read_reads: "reads n tight e s (read n f tight e s)"
proof (induction n f tight e s rule: read.induct)
  case (1 n f tight l s)
  show ?case
  proof (cases "strip l s")
    case None
    then have "take (length l) s \<noteq> l" by (metis append_take_drop_id option.distinct(1) strip_Some)
    with None show ?thesis by (simp add: d_lit_no)
  next
    case (Some s')
    then show ?thesis by (simp add: d_lit flip: strip_Some) (simp add: strip_Some d_lit)
  qed
next
  case (2 n f tight P s)
  show ?case by (cases s) (auto intro!: d_sat d_sat_no)
next
  case (5 n f tight r s)
  then show ?case
    using d_call [of script_grammar n tight r s] d_call_no [of script_grammar n tight r s]
    by (cases "read n f (atomic_in script_grammar tight r) (script_body r) s") (fastforce simp: emit_def span_def)+
next
  case (6 n f tight s)
  then show ?case using trim_derives [of s] by (auto intro: d_skip_at split: prod.splits)
next
  case (7 n f tight a b s)
  show ?case
  proof (cases "read n f tight a s")
    case (Got ps t s1)
    with 7(1) 7(2) [OF Got] show ?thesis
      by (cases "read n f tight b s1") (auto intro: d_thn d_thn_no2)
  qed (use 7(1) in \<open>auto intro: d_thn_no1\<close>)
next
  case (8 n f tight a b s)
  then show ?case
    by (cases "read n f tight a s"; cases "read n f tight b s") (auto intro: d_alt1 d_alt2)
next
  case (12 n f tight a s)
  obtain t0 s0 where sk: "(if tight then ([], s) else trim s) = (t0, s0)" by force
  then have s: "s = t0 @ s0" "derive script_grammar n tight Skip s (Some ([], s0))"
    using trim_derives [of s t0 s0] d_skip_at by (auto split: if_splits)
  note IH = 12(1) [OF sk [symmetric]] and rounds = d_rep [OF d_thn [OF s(2)]]
  show ?case
  proof (cases "read n (Suc f) tight a s0")
    case (Got ps t s1)
    with IH have 1: "s0 = t @ s1" "derive script_grammar n tight a s0 (Some (ps, s1))" by auto
    with 12(2) [OF sk [symmetric] Got] show ?thesis
      using rounds [OF 1(2)] s(1) sk Got
      by (cases "read n f tight (Rep a) s1") (auto dest: derive_Rep_Some)
  next
    case No
    with IH d_rep_no [OF d_thn_no2 [OF s(2)], of a] sk show ?thesis by (auto split: if_splits)
  qed (use sk in \<open>auto split: if_splits\<close>)
qed (auto intro: derive.intros split: reading.splits)

section \<open>Evaluating a script\<close>

text \<open>
  The parts of a node before its maps and numbers are built, so that they can be
  computed and compared.
\<close>

datatype parts =
    Machine_parts "pair list"
  | Work_parts string "(string \<times> string) list" "Instruction list" "(string \<times> string) list option"

fun dist_parts :: "pair list \<Rightarrow> panic + (string \<times> string) list option" where
  "dist_parts [] = Inr None"
| "dist_parts (d # ds) =
     (if as_rule d = R_dist then
        map_res Some (traverse build_opt (filter (\<lambda>q. as_rule q = R_opt) (into_inner d)))
      else Inl (Panic_msg ''Unknown dist''))"

definition function_parts :: "pair list \<Rightarrow> panic + parts" where
  "function_parts func_parts =
     bind_res (expect_next ''No work unit'' func_parts) (\<lambda>(work, rest).
     bind_res (expect_next ''No instructions'' rest) (\<lambda>(instrs, rest').
     bind_res (expect_next ''No work name'' (into_inner work)) (\<lambda>(name, more).
     bind_res (expect_next ''No work parameters'' more) (\<lambda>(params, _).
     bind_res (traverse build_param (into_inner params)) (\<lambda>kvs.
     bind_res (build_ast_from_instr (into_inner instrs)) (\<lambda>instructions.
     bind_res (dist_parts rest') (\<lambda>dist.
     Inr (Work_parts (pair_to_string name) kvs instructions dist))))))))"

fun expr_parts :: "pair \<Rightarrow> panic + parts" where
  "expr_parts (Pair r s ps) =
     (if r = R_expr then (case ps of [] \<Rightarrow> Inl Unwrap_None | p # _ \<Rightarrow> expr_parts p)
      else if r = R_machine then Inr (Machine_parts ps)
      else if r = R_function then function_parts ps
      else Inl (Panic_msg ''Unknown expr''))"

text \<open>Any amount of fuel that gives an answer gives the right one.\<close>

definition script_parts :: "nat \<Rightarrow> string \<Rightarrow> panic + parts list" where
  "script_parts f s =
     (case read (length s) f False (Call R_file) s of
        Got [p] _ _ \<Rightarrow> traverse expr_parts (file_exprs [p])
      | _ \<Rightarrow> Inl Unwrap_None)"

fun node_of :: "parts \<Rightarrow> panic + Node" where
  "node_of (Machine_parts ps) = map_res Machine (build_ast_from_minstr ps)"
| "node_of (Work_parts v kvs ins d) =
     map_res (Work v (collect_map kvs) ins)
       (case d of None \<Rightarrow> Inr None
        | Some os \<Rightarrow> map_res (\<lambda>r. Some (Exp r))
            (expect_some Unwrap_Err (f64_from_str (case collect_map os ''rate'' of Some s \<Rightarrow> s | None \<Rightarrow> ''0''))))"

lemma function_parts_node:
  assumes "function_parts ps = Inr x"
  shows "build_ast_from_function ps = node_of x"
proof -
  from assms obtain w ins ds name params pr kvs xs d where
    "ps = w # ins # ds" "into_inner w = name # params # pr" "traverse build_param (into_inner params) = Inr kvs"
    "build_ast_from_instr (into_inner ins) = Inr xs" "dist_parts ds = Inr d"
    "x = Work_parts (pair_to_string name) kvs xs d"
    by (auto simp: function_parts_def bind_res_eq_Inr elim!: expect_next.elims)
  moreover have "bind_res (map_res Some (bind_res y (\<lambda>r. Inr (Exp r)))) g =
      bind_res (map_res (\<lambda>r. Some (Exp r)) y) g" for y and g :: "Dist option \<Rightarrow> panic + Node"
    by (cases y) simp_all
  moreover have "bind_res y (\<lambda>z. Inr (h z)) = map_res h y" for y and h :: "Dist option \<Rightarrow> Node"
    by (cases y) simp_all
  ultimately show ?thesis
    by (cases ds) (auto simp: build_ast_from_function_def build_ast_from_work_def build_ast_from_dist_def
        Let_def map_res_eq_Inr split: if_splits option.splits)
qed

lemma expr_parts_node: "expr_parts p = Inr x \<Longrightarrow> build_ast_from_expr p = node_of x"
proof (induction p rule: expr_parts.induct)
  case (1 r s ps)
  then show ?case by (auto simp: function_parts_node split: if_splits list.splits)
qed

lemma read_file_parse:
  assumes "read (length s) f False (Call R_file) s = Got ps t s'"
  shows "\<exists>p. ps = [p] \<and> grammar_parse s = Some p"
proof -
  have d: "yields (length s) (Call R_file) s ps s'"
    using read_reads [of "length s" False "Call R_file" s f] unfolding assms reads_simps by blast
  from file_consumes_all [OF d] d show ?thesis by (auto simp: grammar_parse_derive)
qed

lemma script_parts_nodes:
  assumes "generated_parser parse" and "script_parts f s = Inr xs" and "traverse node_of xs = Inr ns"
  shows "parse_instructions parse s = Inr (Inr ns)"
proof -
  from assms(2) obtain p where p: "grammar_parse s = Some p" "traverse expr_parts (file_exprs [p]) = Inr xs"
    using read_file_parse by (fastforce simp: script_parts_def split: reading.splits list.splits)
  have "list_all2 (\<lambda>q n. build_ast_from_expr q = Inr n) (file_exprs [p]) ns"
    using p(2) assms(3) expr_parts_node by (fastforce simp: traverse_eq_Inr list_all2_conv_all_nth)
  then show ?thesis
    by (simp add: generated_parser.instructions_of_pair [OF assms(1) p(1)] flip: traverse_eq_Inr)
qed

section \<open>Blanks and slashes in quoted text\<close>

text \<open>
  The rule \<open>value\<close> is not atomic, so implicit whitespace applies between the
  characters of a quoted text. Two slashes in it start a comment that swallows the
  closing quote: the script is refused although \<open>value\<close> lists the slash.
\<close>

lemma slashes_are_refused:
  "grammar_parse (''main(){open('' @ [CHR 0x22] @ ''http://a'' @ [CHR 0x22] @ '');}'') = None"
proof -
  let ?s = "''main(){open('' @ [CHR 0x22] @ ''http://a'' @ [CHR 0x22] @ '');}''"
  have "read (length ?s) 100 False (Call R_file) ?s = No" by code_simp
  with read_reads [of "length ?s" False "Call R_file" ?s 100] show ?thesis
    by (simp only: grammar_parse_derive reads_simps)
qed

text \<open>Blanks at either end of a quoted text are not part of it.\<close>

lemma outer_blanks_are_dropped:
  "script_parts 100 (''main(){debug('' @ [CHR 0x22] @ '' a b '' @ [CHR 0x22] @ '');}'') =
     Inr [Work_parts ''main'' [] [Debug (Const ''a b'')] None]"
  by code_simp

end
