(* ===== verification/Net_Addr.thy ===== *)
theory Net_Addr
  imports Rust_Prelude
begin

text \<open>
  The local endpoint of a client connection: \<open>get_local_addr_port\<close> of
  \<open>src/worker/network.rs\<close>, on 32-bit addresses and 16-bit ports, in both build
  modes.
\<close>

definition get_local_addr_port ::
    "bool \<Rightarrow> u32 \<Rightarrow> u16 \<Rightarrow> u32 \<Rightarrow> panic + (u32 \<times> u16)" where
  "get_local_addr_port oc addr conns_per_addr index =
     (if conns_per_addr = 0 then Inl Div_by_zero
      else bind_res (add_oc oc 49152 (ucast (index mod ucast conns_per_addr))) (\<lambda>local_port.
           let addr_index = index div ucast conns_per_addr
           in bind_res (add_oc oc addr addr_index) (\<lambda>s.
              bind_res (add_oc oc s 1) (\<lambda>local_addr.
              Inr (local_addr, local_port)))))"

section \<open>Reading the words as numbers\<close>

lemma unat_minus_1_u32: "unat (- 1 :: u32) = 4294967295"
  by (simp add: unsigned_minus_1_eq_mask mask_eq_exp_minus_1)

lemma unat_ucast_16_32 [simp]: "unat (ucast (c :: u16) :: u32) = unat c"
proof -
  have "unat c < 4294967296" using unat_bounds(1) [of c] by linarith
  then show ?thesis by (simp add: unsigned_ucast_eq take_bit_nat_eq_self)
qed

lemma conns_pos: "(c :: u16) \<noteq> 0 \<Longrightarrow> 0 < unat c"
  by (simp add: unat_gt_0)

lemma unat_port_offset:
  assumes "(c :: u16) \<noteq> 0"
  shows "unat (ucast ((i :: u32) mod ucast c) :: u16) = unat i mod unat c"
proof -
  have "unat i mod unat c < 65536"
    using mod_less_divisor [OF conns_pos [OF assms], of "unat i"] unat_bounds(1) [of c]
    by linarith
  then show ?thesis
    by (simp add: unsigned_ucast_eq unat_mod take_bit_nat_eq_self)
qed

lemma unat_addr_index: "unat ((i :: u32) div ucast (c :: u16)) = unat i div unat c"
  by (simp add: unat_div)

text \<open>In a successful call the results are these wrapped sums, in both modes.\<close>

lemma get_local_addr_port_Inr:
  assumes "get_local_addr_port oc addr c i = Inr (a, p)"
  shows "c \<noteq> 0" "a = addr + i div ucast c + 1" "p = 49152 + ucast (i mod ucast c)"
  using assms
  by (auto simp: get_local_addr_port_def Let_def result_simps dest: add_oc_eq_Inr split: if_splits)

lemma get_local_addr_port_release:
  "c \<noteq> 0 \<Longrightarrow> get_local_addr_port False addr c i =
     Inr (addr + i div ucast c + 1, 49152 + ucast (i mod ucast c))"
  by (simp add: get_local_addr_port_def Let_def)

lemma div_mod_determine: "(m :: nat) div k = n div k \<Longrightarrow> m mod k = n mod k \<Longrightarrow> m = n"
  by (metis div_mult_mod_eq)

lemma get_local_addr_port_inj:
  assumes "get_local_addr_port oc addr c i = Inr ep"
    and "get_local_addr_port oc addr c j = Inr ep"
  shows "i = j"
proof -
  obtain a p where ep: "ep = (a, p)" by (cases ep)
  note i = get_local_addr_port_Inr [OF assms(1) [unfolded ep]]
    and j = get_local_addr_port_Inr [OF assms(2) [unfolded ep]]
  have "unat i div unat c = unat j div unat c"
    using i(2) j(2) unat_addr_index [of i c] unat_addr_index [of j c] by simp
  moreover have "unat i mod unat c = unat j mod unat c"
    using i(3) j(3) unat_port_offset [OF i(1), of i] unat_port_offset [OF i(1), of j] by simp
  ultimately have "unat i = unat j" by (rule div_mod_determine)
  then show ?thesis by (simp add: word_unat_eq_iff)
qed

section \<open>What a client relies on\<close>

text \<open>
  The client numbers its connections and takes their local endpoints from the
  numbers. The contract is that a number determines the endpoint and back.
\<close>

locale endpoint_alloc =
  fixes endpoint :: "'i \<Rightarrow> 'e + 'ep"
  assumes endpoint_inj: "endpoint i = Inr x \<Longrightarrow> endpoint j = Inr x \<Longrightarrow> i = j"
begin

lemma endpoints_distinct:
  assumes "distinct is" and "traverse endpoint is = Inr eps"
  shows "distinct eps"
proof -
  have all2: "list_all2 (\<lambda>i ep. endpoint i = Inr ep) is eps"
    using assms(2) by (simp add: result_simps)
  show ?thesis
  proof (unfold distinct_conv_nth, intro allI impI notI)
    fix m n
    assume "m < length eps" "n < length eps" "m \<noteq> n" "eps ! m = eps ! n"
    then have "endpoint (is ! m) = Inr (eps ! m)" "endpoint (is ! n) = Inr (eps ! m)"
      using all2 by (auto simp: list_all2_conv_all_nth)
    then have "is ! m = is ! n" by (rule endpoint_inj)
    with assms(1) \<open>m \<noteq> n\<close> \<open>m < length eps\<close> \<open>n < length eps\<close> all2 show False
      by (simp add: nth_eq_iff_index_eq list_all2_lengthD)
  qed
qed

end

interpretation client_endpoint: endpoint_alloc "get_local_addr_port oc addr c" for oc addr c
  by unfold_locales (rule get_local_addr_port_inj)

section \<open>Properties\<close>

text \<open>
  C14: with at most 16384 connections per address and addresses that stay below
  \<open>2 ^ 32\<close>, the call succeeds in both build modes and gives the port
  \<open>49152 + index mod conns_per_addr\<close> on the address
  \<open>addr + index div conns_per_addr + 1\<close>, computed without wrap-around.
\<close>

theorem local_endpoint_exact:
  assumes "0 < unat c" and "unat c \<le> 16384"
    and "unat addr + unat i div unat c + 1 < 2 ^ 32"
  shows "\<exists>a p. get_local_addr_port oc addr c i = Inr (a, p) \<and>
           unat a = unat addr + unat i div unat c + 1 \<and>
           unat p = 49152 + unat i mod unat c"
proof -
  have c: "c \<noteq> 0" using assms(1) by auto
  have m: "unat i mod unat c < 16384"
    using assms(1,2) mod_less_divisor [of "unat c" "unat i"] by linarith
  have p: "unat (49152 :: u16) + unat (ucast (i mod ucast c) :: u16) < 2 ^ LENGTH(16)"
    using m by (simp add: unat_port_offset [OF c])
  have s: "unat addr + unat (i div ucast c) < 2 ^ LENGTH(32)"
    using assms(3) by (simp add: unat_addr_index)
  have a: "unat (addr + i div ucast c) + unat (1 :: u32) < 2 ^ LENGTH(32)"
    using assms(3) add_oc_exact(2) [OF s] by (simp add: unat_addr_index)
  show ?thesis
    using c add_oc_exact [OF p] add_oc_exact [OF s] add_oc_exact [OF a]
    by (simp add: get_local_addr_port_def Let_def unat_port_offset [OF c] unat_addr_index)
qed

text \<open>The six cases of the unit test \<open>test_get_local_addr_port\<close>, and the exactness at one of them.\<close>

theorem local_endpoint_exact_witness:
  "(\<exists>a p. get_local_addr_port True 0xC0A801FF 9 15 = Inr (a, p) \<and>
      unat a = 0xC0A80201 \<and> unat p = 49158) \<and>
   get_local_addr_port True 0xC0A80164 10 15 = Inr (0xC0A80166, 49157) \<and>
   get_local_addr_port True 0xC0FFFFFF 12 15 = Inr (0xC1000001, 49155) \<and>
   get_local_addr_port True 0xC0A80164 1 512 = Inr (0xC0A80365, 49152) \<and>
   get_local_addr_port True 0xC0A80164 1 65636 = Inr (0xC0A901C9, 49152) \<and>
   get_local_addr_port True 0x0A000001 100 1 = Inr (0x0A000002, 49153)"
  using local_endpoint_exact [of 9 "0xC0A801FF" 15 True]
  by (simp add: get_local_addr_port_def add_oc_def)

text \<open>
  C8: two connection numbers that are given the same endpoint are the same number:
  for every base address, group size and build mode, wrap-around included.
\<close>

theorem local_endpoint_injective:
  assumes "get_local_addr_port oc addr c i = Inr ep"
    and "get_local_addr_port oc addr c j = Inr ep"
  shows "i = j"
  using assms by (rule client_endpoint.endpoint_inj)

theorem local_endpoint_injective_witness:
  "get_local_addr_port False 0xFFFFFFFF 65535 70000 = Inr (1, 53617) \<and>
   get_local_addr_port False 0xFFFFFFFF 65535 4465 \<noteq> Inr (1, 53617)"
proof -
  have at: "get_local_addr_port False 0xFFFFFFFF 65535 70000 = Inr (1, 53617)"
    by (simp add: get_local_addr_port_def)
  then show ?thesis using local_endpoint_injective [OF at, of 4465] by auto
qed

text \<open>
  The base address itself, which the server owns, is never given to a
  connection, but for the last index of a run with one connection per address,
  where the sum wraps all the way round.
\<close>

lemma base_address_not_reused:
  assumes "get_local_addr_port oc addr c i = Inr (a, p)"
  shows "a = addr \<longleftrightarrow> c = 1 \<and> i = - 1"
proof -
  note r = get_local_addr_port_Inr [OF assms]
  have "a = addr \<longleftrightarrow> i div ucast c + 1 = 0" by (simp add: r(2) add.assoc)
  also have "\<dots> \<longleftrightarrow> i div ucast c = - 1" by (simp add: eq_neg_iff_add_eq_0)
  also have "\<dots> \<longleftrightarrow> unat i div unat c = 2 ^ 32 - 1"
    by (simp add: word_unat_eq_iff [of _ "- 1"] unat_addr_index unat_minus_1_u32)
  also have "\<dots> \<longleftrightarrow> unat c = 1 \<and> unat i = 2 ^ 32 - 1"
  proof
    assume d: "unat i div unat c = 2 ^ 32 - 1"
    have "unat c = 1"
    proof (rule ccontr)
      assume "unat c \<noteq> 1"
      with conns_pos [OF r(1)] have "unat i div unat c \<le> unat i div 2"
        by (intro div_le_mono2) auto
      moreover have "unat i div 2 < 4294967295" using unat_bounds(2) [of i] by linarith
      ultimately show False using d by simp
    qed
    with d show "unat c = 1 \<and> unat i = 2 ^ 32 - 1" by simp
  qed simp
  also have "\<dots> \<longleftrightarrow> c = 1 \<and> i = - 1"
    by (simp add: word_unat_eq_iff [of i "- 1"] word_unat_eq_iff [of c 1] unat_minus_1_u32)
  finally show ?thesis .
qed

lemma base_address_not_reused_witness:
  "get_local_addr_port True 0x0A000001 100 10 = Inr (0x0A000002, 49162) \<and>
   ((0x0A000002 :: u32) = 0x0A000001 \<longleftrightarrow> (100 :: u16) = 1 \<and> (10 :: u32) = - 1)"
proof -
  have at: "get_local_addr_port True 0x0A000001 100 10 = Inr (0x0A000002, 49162)"
    by (simp add: get_local_addr_port_def add_oc_def)
  with base_address_not_reused [OF at] show ?thesis by blast
qed

text \<open>
  C38: in a build with overflow checks the call panics exactly when the group size
  is zero, the port offset reaches 16384, or the address sum reaches \<open>2 ^ 32\<close>.
\<close>

theorem local_endpoint_panics:
  "(\<exists>e. get_local_addr_port True addr c i = Inl e) \<longleftrightarrow>
     c = 0 \<or> 16384 \<le> unat i mod unat c \<or> 2 ^ 32 \<le> unat addr + unat i div unat c + 1"
proof (cases "c = 0")
  case True
  then show ?thesis by (simp add: get_local_addr_port_def)
next
  case False
  have "unat (addr + i div ucast c) = (unat addr + unat i div unat c) mod 2 ^ 32"
    by (simp add: unat_word_ariths(1) unat_addr_index)
  then show ?thesis using False
    by (auto simp: get_local_addr_port_def add_oc_def Let_def unat_port_offset unat_addr_index)
qed

end
