(* ===== verification/Config.thy ===== *)
theory Config
  imports Rust_F64
begin

text \<open>
  The configuration types of \<open>src/lib.rs\<close>: the workload configuration with its
  defaults, the tagged unions \<open>Workload\<close> and \<open>Distribution\<close>, the argument map
  of the syscall and io\_uring workloads, and how the arguments string is read.
\<close>

section \<open>Argument maps\<close>

type_synonym args_map = "string \<rightharpoonup> string"

definition ArgsMap_new :: args_map where
  "ArgsMap_new = Map.empty"

text \<open>
  \<open>get<T: FromStr>\<close>: the conversion of the type parameter is the first argument.
  A missing key and a value that does not convert both give the default.
\<close>

definition ArgsMap_get :: "(string \<Rightarrow> 'a option) \<Rightarrow> args_map \<Rightarrow> string \<Rightarrow> 'a \<Rightarrow> 'a" where
  "ArgsMap_get from_str m name dflt =
     (case m name of
        Some arg \<Rightarrow> (case from_str arg of Some v \<Rightarrow> v | None \<Rightarrow> dflt)
      | None \<Rightarrow> dflt)"

text \<open>\<open>str::split\<close> on a character, and \<open>str::split_once\<close>.\<close>

fun split_char :: "char \<Rightarrow> string \<Rightarrow> string list" where
  "split_char c [] = [[]]"
| "split_char c (x # xs) =
     (if x = c then [] # split_char c xs
      else (x # hd (split_char c xs)) # tl (split_char c xs))"

fun split_once :: "char \<Rightarrow> string \<Rightarrow> (string \<times> string) option" where
  "split_once c [] = None"
| "split_once c (x # xs) =
     (if x = c then Some ([], xs)
      else map_option (\<lambda>(a, b). (x # a, b)) (split_once c xs))"

datatype de_error = De_Type | De_Custom string | De_Missing string | De_Unknown_variant string

definition parse_arg :: "string \<Rightarrow> de_error + (string \<times> string)" where
  "parse_arg arg = (case split_once CHR ''='' arg of
       Some kv \<Rightarrow> Inr kv
     | None \<Rightarrow> Inl (De_Custom (''invalid syscall arguments format: '' @ arg)))"

text \<open>
  The input is the result of \<open>String::deserialize\<close>, an error of which is returned
  as it is. Collecting into a \<open>HashMap\<close> inserts from left to right.
\<close>

definition deserialize_args :: "de_error + string \<Rightarrow> de_error + args_map" where
  "deserialize_args d = bind_res d (\<lambda>s.
     case traverse parse_arg (filter (\<lambda>x. x \<noteq> []) (split_char CHR '','' s)) of
       Inr kvs \<Rightarrow> Inr (foldl (\<lambda>m (k, v). m(k \<mapsto> v)) Map.empty kvs)
     | Inl _ \<Rightarrow> Inl (De_Custom ''invalid syscall arguments format''))"

section \<open>Workload configuration\<close>

datatype Distribution =
    Zipfian (n_ports: u64) (exponent: f64)
  | Uniform (lower: u64) (upper: u64)

datatype Workload =
    Endpoints (distribution: Distribution)
  | Processes (arrival_rate: f64) (departure_rate: f64) (random_process: bool)
  | Syscalls (arrival_rate: f64) (tight_loop: bool) (syscall_nr: u32) (syscall_args: args_map)
  | IOUring (arrival_rate: f64) (tight_loop: bool) (iouring_nr: u8) (iouring_args: args_map)
  | Network (server: bool) (address: u32) (target_port: u16) (arrival_rate: f64)
      (departure_rate: f64) (connections_static: u32) (connections_dyn_max: u32)
      (conns_per_addr: u16) (send_interval: u64) (preempt: bool)
  | Bpf (tracepoint: u64) (nprogs: u64)

record WorkloadConfig =
  restart_interval :: u64
  per_core :: bool
  workers :: usize
  workload :: Workload
  duration :: u64

definition default_workers :: usize where "default_workers = 1"
definition default_per_core :: bool where "default_per_core = True"
definition default_duration :: u64 where "default_duration = 0"
definition default_syscalls_arrival_rate :: f64 where "default_syscalls_arrival_rate = Fin 0"
definition default_syscalls_tight_loop :: bool where "default_syscalls_tight_loop = False"

text \<open>\<open>Sysno::getpid\<close> of x86\_64 and the opcode \<open>IORING_OP_OPENAT\<close>.\<close>

definition default_syscalls_syscall_nr :: u32 where "default_syscalls_syscall_nr = 39"
definition default_iouring_iouring_nr :: u8 where "default_iouring_iouring_nr = 18"
definition default_bpf_tracepoint :: u64 where "default_bpf_tracepoint = 306"
definition default_bpf_nprogs :: u64 where "default_bpf_nprogs = 100"
definition default_conns_per_addr :: u16 where "default_conns_per_addr = 100"
definition default_network_send_interval :: u64 where "default_network_send_interval = 100"

text \<open>
  What the configuration sources hold, one optional typed field per key of the
  two structures; a key the structures do not name is not looked at. The
  attributes of \<open>lib.rs\<close> say which keys have a default and how the tag
  selects a variant.
\<close>

record raw_workload =
  raw_type :: "string option"
  raw_distribution :: "string option"
  raw_n_ports :: "u64 option"
  raw_exponent :: "f64 option"
  raw_lower :: "u64 option"
  raw_upper :: "u64 option"
  raw_arrival_rate :: "f64 option"
  raw_departure_rate :: "f64 option"
  raw_random_process :: "bool option"
  raw_tight_loop :: "bool option"
  raw_syscall_nr :: "u32 option"
  raw_syscall_args :: "string option"
  raw_iouring_nr :: "u8 option"
  raw_iouring_args :: "string option"
  raw_server :: "bool option"
  raw_address :: "u32 option"
  raw_target_port :: "u16 option"
  raw_connections_static :: "u32 option"
  raw_connections_dyn_max :: "u32 option"
  raw_conns_per_addr :: "u16 option"
  raw_send_interval :: "u64 option"
  raw_preempt :: "bool option"
  raw_tracepoint :: "u64 option"
  raw_nprogs :: "u64 option"

definition raw_empty :: raw_workload where
  "raw_empty = \<lparr>raw_type = None, raw_distribution = None, raw_n_ports = None,
     raw_exponent = None, raw_lower = None, raw_upper = None, raw_arrival_rate = None,
     raw_departure_rate = None, raw_random_process = None, raw_tight_loop = None,
     raw_syscall_nr = None, raw_syscall_args = None, raw_iouring_nr = None,
     raw_iouring_args = None, raw_server = None, raw_address = None,
     raw_target_port = None, raw_connections_static = None, raw_connections_dyn_max = None,
     raw_conns_per_addr = None, raw_send_interval = None, raw_preempt = None,
     raw_tracepoint = None, raw_nprogs = None\<rparr>"

definition required :: "string \<Rightarrow> 'a option \<Rightarrow> de_error + 'a" where
  "required key v = expect_some (De_Missing key) v"

fun with_default :: "'a option \<Rightarrow> 'a \<Rightarrow> 'a" where
  "with_default (Some v) d = v"
| "with_default None d = d"

definition args_field :: "string option \<Rightarrow> de_error + args_map" where
  "args_field v = (case v of None \<Rightarrow> Inr ArgsMap_new | Some s \<Rightarrow> deserialize_args (Inr s))"

definition Distribution_of :: "raw_workload \<Rightarrow> de_error + Distribution" where
  "Distribution_of r = bind_res (required ''distribution'' (raw_distribution r)) (\<lambda>tag.
     if tag = ''Zipfian'' \<or> tag = ''zipf'' then
       bind_res (required ''n_ports'' (raw_n_ports r)) (\<lambda>n.
       bind_res (required ''exponent'' (raw_exponent r)) (\<lambda>e. Inr (Zipfian n e)))
     else if tag = ''Uniform'' \<or> tag = ''uniform'' then
       bind_res (required ''lower'' (raw_lower r)) (\<lambda>l.
       bind_res (required ''upper'' (raw_upper r)) (\<lambda>u. Inr (Uniform l u)))
     else Inl (De_Unknown_variant tag))"

definition Workload_of :: "raw_workload \<Rightarrow> de_error + Workload" where
  "Workload_of r = bind_res (required ''type'' (raw_type r)) (\<lambda>tag.
     if tag = ''endpoints'' then map_res Endpoints (Distribution_of r)
     else if tag = ''processes'' then
       bind_res (required ''arrival_rate'' (raw_arrival_rate r)) (\<lambda>a.
       bind_res (required ''departure_rate'' (raw_departure_rate r)) (\<lambda>d.
       bind_res (required ''random_process'' (raw_random_process r)) (\<lambda>p.
       Inr (Processes a d p))))
     else if tag = ''syscalls'' then
       bind_res (args_field (raw_syscall_args r)) (\<lambda>m.
       Inr (Syscalls (with_default (raw_arrival_rate r) default_syscalls_arrival_rate)
              (with_default (raw_tight_loop r) default_syscalls_tight_loop)
              (with_default (raw_syscall_nr r) default_syscalls_syscall_nr) m))
     else if tag = ''iouring'' then
       bind_res (args_field (raw_iouring_args r)) (\<lambda>m.
       Inr (IOUring (with_default (raw_arrival_rate r) default_syscalls_arrival_rate)
              (with_default (raw_tight_loop r) default_syscalls_tight_loop)
              (with_default (raw_iouring_nr r) default_iouring_iouring_nr) m))
     else if tag = ''network'' then
       bind_res (required ''server'' (raw_server r)) (\<lambda>s.
       bind_res (required ''address'' (raw_address r)) (\<lambda>ad.
       bind_res (required ''target_port'' (raw_target_port r)) (\<lambda>tp.
       bind_res (required ''arrival_rate'' (raw_arrival_rate r)) (\<lambda>a.
       bind_res (required ''departure_rate'' (raw_departure_rate r)) (\<lambda>d.
       bind_res (required ''connections_static'' (raw_connections_static r)) (\<lambda>cs.
       bind_res (required ''connections_dyn_max'' (raw_connections_dyn_max r)) (\<lambda>cd.
       bind_res (required ''preempt'' (raw_preempt r)) (\<lambda>p.
       Inr (Network s ad tp a d cs cd
              (with_default (raw_conns_per_addr r) default_conns_per_addr)
              (with_default (raw_send_interval r) default_network_send_interval) p)))))))))
     else if tag = ''bpf'' then
       Inr (Bpf (with_default (raw_tracepoint r) default_bpf_tracepoint)
              (with_default (raw_nprogs r) default_bpf_nprogs))
     else Inl (De_Unknown_variant tag))"

record raw_config =
  raw_restart_interval :: "u64 option"
  raw_per_core :: "bool option"
  raw_workers :: "usize option"
  raw_workload_table :: "raw_workload option"
  raw_duration :: "u64 option"

definition WorkloadConfig_of :: "raw_config \<Rightarrow> de_error + WorkloadConfig" where
  "WorkloadConfig_of r =
     bind_res (required ''restart_interval'' (raw_restart_interval r)) (\<lambda>ri.
     bind_res (required ''workload'' (raw_workload_table r)) (\<lambda>rw.
     bind_res (Workload_of rw) (\<lambda>w.
     Inr \<lparr>restart_interval = ri, per_core = with_default (raw_per_core r) default_per_core,
          workers = with_default (raw_workers r) default_workers, workload = w,
          duration = with_default (raw_duration r) default_duration\<rparr>)))"

section \<open>Errors and identity of a worker\<close>

datatype WorkerError = Internal | InternalWithMessage string

fun show_WorkerError :: "WorkerError \<Rightarrow> string" where
  "show_WorkerError Internal = ''worker error found''"
| "show_WorkerError (InternalWithMessage msg) = ''worker error: '' @ msg"

record BaseConfig =
  cpu :: usize
  process :: usize

definition show_BaseConfig :: "BaseConfig \<Rightarrow> string" where
  "show_BaseConfig c =
     ''Process '' @ show_nat (unat (process c)) @ '' from '' @ show_nat (unat (cpu c))"

section \<open>Facts on splitting\<close>

lemma split_char_not_Nil [simp]: "split_char c s \<noteq> []"
  by (induction s) auto

lemma split_char_fresh: "c \<notin> set s \<Longrightarrow> split_char c s = [s]"
  by (induction s) auto

lemma split_char_append_sep:
  "c \<notin> set s \<Longrightarrow> split_char c (s @ c # t) = s # split_char c t"
  by (induction s) auto

lemma split_char_parts_fresh: "p \<in> set (split_char c s) \<Longrightarrow> c \<notin> set p"
proof (induction s arbitrary: p)
  case Nil
  then show ?case by simp
next
  case (Cons x xs)
  have "hd (split_char c xs) \<in> set (split_char c xs)" by simp
  with Cons show ?case
    by (auto split: if_splits dest: list.set_sel(2) [OF split_char_not_Nil])
qed

lemma split_once_append:
  "c \<notin> set a \<Longrightarrow> split_once c (a @ c # b) = Some (a, b)"
  by (induction a) auto

lemma split_once_eq_None [simp]: "split_once c s = None \<longleftrightarrow> c \<notin> set s"
  by (induction s) auto

lemma split_once_SomeD: "split_once c s = Some (a, b) \<Longrightarrow> s = a @ c # b \<and> c \<notin> set a"
  by (induction s arbitrary: a) (auto split: if_splits)

section \<open>Facts on argument maps\<close>

text \<open>Printing an argument list the way the configuration files write it.\<close>

fun render_args :: "(string \<times> string) list \<Rightarrow> string" where
  "render_args [] = []"
| "render_args [(k, v)] = k @ CHR ''='' # v"
| "render_args ((k, v) # kvs) = k @ CHR ''='' # v @ CHR '','' # render_args kvs"

definition printable_arg :: "string \<times> string \<Rightarrow> bool" where
  "printable_arg kv \<longleftrightarrow> CHR ''='' \<notin> set (fst kv) \<and> CHR '','' \<notin> set (fst kv) \<and>
     CHR '','' \<notin> set (snd kv)"

lemma split_render_args:
  assumes "list_all printable_arg kvs" and "kvs \<noteq> []"
  shows "split_char CHR '','' (render_args kvs) = map (\<lambda>(k, v). k @ CHR ''='' # v) kvs"
  using assms
proof (induction kvs rule: render_args.induct)
  case 1
  then show ?case by simp
next
  case (2 k v)
  then show ?case by (simp add: printable_arg_def split_char_fresh)
next
  case (3 k v kv kvs)
  then have "CHR '','' \<notin> set (k @ CHR ''='' # v)" by (simp add: printable_arg_def)
  from split_char_append_sep [OF this, of "render_args (kv # kvs)"] 3 show ?case by simp
qed

lemma traverse_parse_arg_render:
  assumes "list_all printable_arg kvs"
  shows "traverse parse_arg (filter (\<lambda>x. x \<noteq> []) (map (\<lambda>(k, v). k @ CHR ''='' # v) kvs)) = Inr kvs"
  using assms
  by (induction kvs) (auto simp: parse_arg_def printable_arg_def split_once_append)

lemma foldl_upd_map_of: "foldl (\<lambda>m (k, v). m(k \<mapsto> v)) m kvs = m ++ map_of (rev kvs)"
  by (induction kvs arbitrary: m) (auto simp: map_add_def fun_eq_iff split: option.splits)

text \<open>
  The contract between the configuration text and a caller's field: a type whose
  \<open>FromStr\<close> reads back what its printer writes, on values whose text has no
  comma.
\<close>

locale text_conv =
  fixes from_str :: "string \<Rightarrow> 'a option"
    and to_str :: "'a \<Rightarrow> string"
    and valid :: "'a \<Rightarrow> bool"
  assumes parse_print: "valid x \<Longrightarrow> from_str (to_str x) = Some x"
    and print_no_comma: "valid x \<Longrightarrow> CHR '','' \<notin> set (to_str x)"
begin

lemma get_present:
  assumes "valid x" and "m k = Some (to_str x)"
  shows "ArgsMap_get from_str m k d = x"
  using assms by (simp add: ArgsMap_get_def parse_print)

lemma get_rendered:
  assumes "valid x" and "list_all printable_arg kvs" and "printable_arg (k, [])"
    and "k \<notin> fst ` set kvs'" and "list_all printable_arg kvs'"
  shows "map_res (\<lambda>m. ArgsMap_get from_str m k d)
           (deserialize_args (Inr (render_args (kvs @ (k, to_str x) # kvs')))) = Inr x"
proof -
  let ?l = "kvs @ (k, to_str x) # kvs'"
  have all: "list_all printable_arg ?l"
    using assms print_no_comma [OF assms(1)] by (simp add: printable_arg_def)
  have "map_of (rev ?l) k = Some (to_str x)"
    using assms(4) map_of_eq_None_iff [of "rev kvs'" k] by (simp add: map_add_def)
  moreover have "deserialize_args (Inr (render_args ?l)) = Inr (map_of (rev ?l))"
    using all traverse_parse_arg_render [OF all] split_render_args [OF all]
    by (simp add: deserialize_args_def foldl_upd_map_of)
  ultimately show ?thesis by (simp add: get_present [OF assms(1)])
qed

end

interpretation usize_conv: text_conv usize_from_str "\<lambda>x. show_nat (unat x)" "\<lambda>_. True"
  by unfold_locales (auto simp: usize_from_str_def parse_simps)

interpretation u64_conv: text_conv u64_from_str "\<lambda>x. show_nat (unat x)" "\<lambda>_. True"
  by unfold_locales (auto simp: u64_from_str_def parse_simps)

interpretation u32_conv: text_conv u32_from_str "\<lambda>x. show_nat (unat x)" "\<lambda>_. True"
  by unfold_locales (auto simp: u32_from_str_def parse_simps)

interpretation cstring_conv: text_conv cstring_from_str "\<lambda>x. x"
    "\<lambda>x. CHR 0x00 \<notin> set x \<and> CHR '','' \<notin> set x"
  by unfold_locales (auto simp: cstring_from_str_def)

section \<open>Properties\<close>

text \<open>
  C22: reading an arguments string that was printed from a list of pairs gives the
  map of the pairs, a later pair with the same key winning. Keys hold no comma
  and no equals sign, values hold no comma (a value may hold equals signs).
\<close>

theorem deserialize_args_roundtrip:
  assumes "list_all printable_arg kvs"
  shows "deserialize_args (Inr (render_args kvs)) = Inr (map_of (rev kvs))"
proof (cases "kvs = []")
  case True
  then show ?thesis by (simp add: deserialize_args_def)
next
  case False
  then show ?thesis
    using traverse_parse_arg_render [OF assms] split_render_args [OF assms False]
    by (simp add: deserialize_args_def foldl_upd_map_of)
qed

theorem deserialize_args_roundtrip_witness:
  "deserialize_args (Inr ''pathname=/tmp,flags=0,mode=0,flags=a=b'') =
     Inr (map_of [(''flags'', ''a=b''), (''mode'', ''0''), (''flags'', ''0''), (''pathname'', ''/tmp'')])"
  using deserialize_args_roundtrip
    [of "[(''pathname'', ''/tmp''), (''flags'', ''0''), (''mode'', ''0''), (''flags'', ''a=b'')]"]
  by (simp add: printable_arg_def)

text \<open>
  C39: the arguments string is refused, always with the same message, exactly when
  one of its non-empty comma-separated parts has no equals sign.
\<close>

theorem deserialize_args_refuses:
  "deserialize_args (Inr s) = Inl e \<longleftrightarrow>
     e = De_Custom ''invalid syscall arguments format'' \<and>
     (\<exists>p. p \<in> set (split_char CHR '','' s) \<and> p \<noteq> [] \<and> CHR ''='' \<notin> set p)"
proof -
  let ?ps = "filter (\<lambda>x. x \<noteq> []) (split_char CHR '','' s)"
  have one: "(\<exists>y. parse_arg p = Inr y) \<longleftrightarrow> CHR ''='' \<in> set p" for p
    using split_once_eq_None [of "CHR ''=''" p]
    by (auto simp: parse_arg_def simp del: split_once_eq_None split: option.splits)
  have "(\<exists>ys. traverse parse_arg ?ps = Inr ys) \<longleftrightarrow>
      (\<forall>p. p \<in> set (split_char CHR '','' s) \<longrightarrow> p \<noteq> [] \<longrightarrow> CHR ''='' \<in> set p)"
    by (simp only: traverse_succeeds one) auto
  then show ?thesis
    by (cases "traverse parse_arg ?ps") (auto simp: deserialize_args_def)
qed

text \<open>
  A numeric argument written in decimal anywhere in the arguments string,
  and not overridden later in it, is the number \<open>ArgsMap::get\<close> returns.
\<close>

lemma usize_arg_end_to_end:
  assumes "list_all printable_arg kvs" and "list_all printable_arg kvs'"
    and "printable_arg (k, [])" and "k \<notin> fst ` set kvs'"
  shows "map_res (\<lambda>m. ArgsMap_get usize_from_str m k d)
           (deserialize_args (Inr (render_args (kvs @ (k, show_nat (unat x)) # kvs')))) = Inr x"
  using usize_conv.get_rendered [OF _ assms(1,3,4,2)] by simp

lemma usize_arg_end_to_end_witness:
  "map_res (\<lambda>m. ArgsMap_get usize_from_str m ''flags'' 7)
     (deserialize_args (Inr (render_args
        ([(''pathname'', ''/tmp'')] @ (''flags'', show_nat (unat (577 :: usize))) # [(''mode'', ''0'')]))))
   = Inr 577"
  by (rule usize_arg_end_to_end) (simp_all add: printable_arg_def)

text \<open>
  An absent key, a text that is not a decimal number and a number of
  \<open>2 ^ 64\<close> or more all give the caller's default.
\<close>

lemma usize_arg_default:
  "ArgsMap_get usize_from_str m k d = d"
  if "\<forall>s n. m k = Some s \<longrightarrow> nat_from_str 64 s \<noteq> Some n"
  using that by (auto simp: ArgsMap_get_def usize_from_str_def split: option.splits)

lemma usize_arg_default_witness:
  "ArgsMap_get usize_from_str [''mode'' \<mapsto> ''0o777''] ''mode'' 5 = 5"
proof -
  have "nat_from_str 64 ''0o777'' = None"
    by (simp add: nat_from_str_def digit_of_def)
  then show ?thesis
    using usize_arg_default [of "[''mode'' \<mapsto> ''0o777'']" "''mode''" 5] by simp
qed

text \<open>
  A configuration that names only the restart interval and the workload type
  \<open>syscalls\<close> is accepted, runs one worker per core without a time limit, and
  calls \<open>getpid\<close> with an arrival rate of zero, not in a tight loop.
\<close>

lemma syscalls_defaults:
  "WorkloadConfig_of \<lparr>raw_restart_interval = Some ri, raw_per_core = None, raw_workers = None,
       raw_workload_table = Some (raw_empty\<lparr>raw_type := Some ''syscalls''\<rparr>), raw_duration = None\<rparr> =
     Inr \<lparr>restart_interval = ri, per_core = True, workers = 1,
          workload = Syscalls (Fin 0) False 39 Map.empty, duration = 0\<rparr>"
  by (simp add: WorkloadConfig_of_def Workload_of_def required_def raw_empty_def args_field_def
      ArgsMap_new_def default_per_core_def default_workers_def default_duration_def
      default_syscalls_arrival_rate_def default_syscalls_tight_loop_def
      default_syscalls_syscall_nr_def)

end
