(* ===== verification/Unit_Tests.thy ===== *)
theory Unit_Tests
  imports Script_Scan Net_Addr Config
begin

text \<open>
  The unit tests of the repository as functions that return or panic: those of
  \<open>src/script/parser.rs\<close> over the generated parser, those of \<open>src/lib.rs\<close> over the
  reader of TOML texts, and the one of \<open>src/worker/network.rs\<close>.
\<close>

section \<open>Assertions\<close>

definition assert_eq :: "'a \<Rightarrow> 'a \<Rightarrow> panic + unit" where
  "assert_eq a b = (if a = b then Inr () else Inl Assert_failed)"

definition checks :: "(panic + unit) list \<Rightarrow> panic + unit" where
  "checks cs = map_res (\<lambda>_. ()) (traverse (\<lambda>c. c) cs)"

lemma checks_pass [simp]: "checks cs = Inr () \<longleftrightarrow> list_all (\<lambda>c. c = Inr ()) cs"
proof -
  have "traverse (\<lambda>c. c) cs = Inr (replicate (length cs) ()) \<longleftrightarrow> list_all (\<lambda>c. c = Inr ()) cs"
    by (induction cs) (auto simp: result_simps)
  moreover have "xs = replicate (length cs) ()" if "traverse (\<lambda>c. c) cs = Inr xs" for xs
    using that by (induction cs arbitrary: xs) (auto simp: result_simps)
  ultimately show ?thesis by (auto simp: checks_def map_res_eq_Inr)
qed

lemma assert_eq_pass [simp]: "assert_eq a b = Inr () \<longleftrightarrow> a = b" "assert_eq a a = Inr ()"
  by (simp_all add: assert_eq_def)

text \<open>\<open>args.len()\<close>, \<open>args.get(key).unwrap()\<close> and \<open>v[i]\<close>\<close>

definition args_len :: "(string \<rightharpoonup> string) \<Rightarrow> nat" where
  "args_len args = card (dom args)"

definition assert_arg :: "(string \<rightharpoonup> string) \<Rightarrow> string \<Rightarrow> string \<Rightarrow> panic + unit" where
  "assert_arg args key v = bind_res (expect_some Unwrap_None (args key)) (\<lambda>a. assert_eq a v)"

definition index_at :: "'a list \<Rightarrow> nat \<Rightarrow> panic + 'a" where
  "index_at xs i = (if i < length xs then Inr (xs ! i) else Inl Index_out_of_bounds)"

definition assert_at :: "'a list \<Rightarrow> nat \<Rightarrow> 'a \<Rightarrow> panic + unit" where
  "assert_at xs i v = bind_res (index_at xs i) (\<lambda>x. assert_eq x v)"

definition assert_dist :: "Dist option \<Rightarrow> Dist \<Rightarrow> panic + unit" where
  "assert_dist dst v = bind_res (expect_some Unwrap_None dst) (\<lambda>d. assert_eq d v)"

section \<open>The tests of the script parser\<close>

fun test_repeated :: "Node \<Rightarrow> panic + unit" where
  "test_repeated (Work name args instructions dst) =
     checks [assert_eq name ''repeated'',
       assert_eq (args_len args) 2, assert_arg args ''workers'' ''10'', assert_arg args ''duration'' ''100'',
       assert_eq (length instructions) 1,
       assert_at instructions 0 (Open (Const ''/tmp/test'')),
       assert_dist dst (Exp (Fin 100))]"
| "test_repeated (Machine m_instructions) = Inl Unreachable"

fun test_random :: "Node \<Rightarrow> panic + unit" where
  "test_random (Work name args instructions dst) =
     checks [assert_eq name ''random'',
       assert_eq (args_len args) 2, assert_arg args ''workers'' ''10'', assert_arg args ''duration'' ''100'',
       assert_eq (length instructions) 1,
       assert_at instructions 0 (Open (Dynamic ''random_path'' [Const ''/tmp''])),
       assert_dist dst (Exp (Fin 100))]"
| "test_random (Machine m_instructions) = Inl Unreachable"

fun test_task :: "Node \<Rightarrow> bool \<Rightarrow> bool \<Rightarrow> panic + unit" where
  "test_task (Work name args instructions dst) global_opts with_exp =
     checks [assert_eq name ''main'',
       if global_opts then checks [assert_eq (args_len args) 2, assert_arg args ''workers'' ''2'',
         assert_arg args ''duration'' ''10''] else Inr (),
       assert_eq (length instructions) 2,
       assert_at instructions 0 (Debug (Const ''run task stub'')),
       assert_at instructions 1 (Task (Var ''stub'') []),
       if with_exp then assert_dist dst (Exp (Fin 10)) else Inr ()]"
| "test_task (Machine m_instructions) global_opts with_exp = Inl Unreachable"

fun test_ping :: "Node \<Rightarrow> bool \<Rightarrow> bool \<Rightarrow> panic + unit" where
  "test_ping (Work name args instructions dst) global_opts with_exp =
     checks [assert_eq name ''main'',
       if global_opts then checks [assert_eq (args_len args) 2, assert_arg args ''workers'' ''2'',
         assert_arg args ''duration'' ''10''] else Inr (),
       assert_eq (length instructions) 2,
       assert_at instructions 0 (Debug (Const ''ping server'')),
       assert_at instructions 1 (Ping (Const ''127.0.0.1:8080'')),
       if with_exp then assert_dist dst (Exp (Fin 10)) else Inr ()]"
| "test_ping (Machine m_instructions) global_opts with_exp = Inl Unreachable"

fun test_machine :: "Node \<Rightarrow> bool \<Rightarrow> bool \<Rightarrow> panic + unit" where
  "test_machine (Machine m_instructions) with_server with_profile =
     checks [assert_eq (length m_instructions) 1,
       if with_server then assert_at m_instructions 0 (Server 8080) else Inr (),
       if with_profile then assert_at m_instructions 0 (Profile ''bpf'') else Inr ()]"
| "test_machine (Work name args instructions dst) with_server with_profile = Inl Unreachable"

text \<open>A test calls \<open>parse_instructions(input).unwrap()\<close> and checks the number of nodes first.\<close>

definition with_ast ::
    "(string \<Rightarrow> 'e + pair list) \<Rightarrow> string \<Rightarrow> nat \<Rightarrow> (Node list \<Rightarrow> panic + unit) \<Rightarrow> panic + unit" where
  "with_ast parse input n test =
     bind_res (parse_instructions parse input) (\<lambda>res.
     case res of
       Inl e \<Rightarrow> Inl Unwrap_Err
     | Inr ast \<Rightarrow> bind_res (assert_eq (length ast) n) (\<lambda>_. test ast))"

definition unlines :: "string list \<Rightarrow> string" where
  "unlines ls = concat (map (\<lambda>l. l @ [CHR 0x0A]) (butlast ls)) @ last ls"

abbreviation dq :: string where
  "dq \<equiv> [CHR 0x22]"

definition input_single_work_unit :: string where
  "input_single_work_unit = unlines [[],
     ''            // open the same file over and over'',
     ''            repeated (workers = 10, duration = 100) {'',
     ''              open('' @ dq @ ''/tmp/test'' @ dq @ '');'',
     ''            } : exp {'',
     ''              rate = 100.0;'',
     ''            }'',
     ''        '']"

definition input_multiple_work_units :: string where
  "input_multiple_work_units = unlines [[],
     ''            // open lots of random files under'',
     ''            // a specified directory'',
     ''            random (workers = 10, duration = 100) {'',
     ''              open(random_path('' @ dq @ ''/tmp'' @ dq @ ''));'',
     ''            } : exp {'',
     ''              rate = 100.0;'',
     ''            }'',
     [],
     ''            // open the same file over and over'',
     ''            repeated (workers = 10, duration = 100) {'',
     ''              open('' @ dq @ ''/tmp/test'' @ dq @ '');'',
     ''            } : exp {'',
     ''              rate = 100.0;'',
     ''            }'',
     ''        '']"

definition input_task_unit :: string where
  "input_task_unit = unlines [[],
     ''            // Named work block'',
     ''            main (workers = 2, duration = 10) {'',
     ''              // Anon work block with only one unit.'',
     ''              // task(name) -- spawn a process with specified name'',
     ''              // debug(text) -- log with DEBUG level'',
     ''              // open(path) -- open file by path, create if needed and write something to it'',
     ''              debug('' @ dq @ ''run task stub'' @ dq @ '');'',
     ''              task(stub);'',
     ''            } : exp {'',
     ''              // If no distribution provided, do the unit only once.'',
     ''              rate = 10.0;'',
     ''            }'',
     ''        '']"

definition input_task_unit_no_dist :: string where
  "input_task_unit_no_dist = unlines [[],
     ''            main () {'',
     ''              debug('' @ dq @ ''run task stub'' @ dq @ '');'',
     ''              task(stub);'',
     ''            }'',
     ''        '']"

definition input_ping_with_machine :: string where
  "input_ping_with_machine = unlines [[],
     ''            machine {'',
     ''              server(8080);'',
     ''            }'',
     [],
     ''            main () {'',
     ''              debug('' @ dq @ ''ping server'' @ dq @ '');'',
     ''              ping('' @ dq @ ''127.0.0.1:8080'' @ dq @ '');'',
     ''            }'',
     ''        '']"

definition test_single_work_unit :: "(string \<Rightarrow> 'e + pair list) \<Rightarrow> panic + unit" where
  "test_single_work_unit parse = with_ast parse input_single_work_unit 1 (\<lambda>ast.
     bind_res (index_at ast 0) test_repeated)"

definition test_multiple_work_units :: "(string \<Rightarrow> 'e + pair list) \<Rightarrow> panic + unit" where
  "test_multiple_work_units parse = with_ast parse input_multiple_work_units 2 (\<lambda>ast.
     checks [bind_res (index_at ast 0) test_random, bind_res (index_at ast 1) test_repeated])"

definition test_task_unit :: "(string \<Rightarrow> 'e + pair list) \<Rightarrow> panic + unit" where
  "test_task_unit parse = with_ast parse input_task_unit 1 (\<lambda>ast.
     bind_res (index_at ast 0) (\<lambda>node. test_task node True True))"

definition test_task_unit_no_dist :: "(string \<Rightarrow> 'e + pair list) \<Rightarrow> panic + unit" where
  "test_task_unit_no_dist parse = with_ast parse input_task_unit_no_dist 1 (\<lambda>ast.
     bind_res (index_at ast 0) (\<lambda>node. test_task node False False))"

definition test_ping_with_machine :: "(string \<Rightarrow> 'e + pair list) \<Rightarrow> panic + unit" where
  "test_ping_with_machine parse = with_ast parse input_ping_with_machine 2 (\<lambda>ast.
     checks [bind_res (index_at ast 0) (\<lambda>node. test_machine node True False),
       bind_res (index_at ast 1) (\<lambda>node. test_ping node False False)])"

text \<open>The texts are read by evaluation.\<close>

lemma parts_single_work_unit: "script_parts 100 input_single_work_unit =
  Inr [Work_parts ''repeated'' [(''workers'', ''10''), (''duration'', ''100'')] [Open (Const ''/tmp/test'')] (Some [(''rate'', ''100.0'')])]"
  by code_simp

lemma parts_multiple_work_units: "script_parts 100 input_multiple_work_units =
  Inr [Work_parts ''random'' [(''workers'', ''10''), (''duration'', ''100'')]
         [Open (Dynamic ''random_path'' [Const ''/tmp''])] (Some [(''rate'', ''100.0'')]),
       Work_parts ''repeated'' [(''workers'', ''10''), (''duration'', ''100'')]
         [Open (Const ''/tmp/test'')] (Some [(''rate'', ''100.0'')])]"
  by code_simp

lemma parts_task_unit: "script_parts 100 input_task_unit =
  Inr [Work_parts ''main'' [(''workers'', ''2''), (''duration'', ''10'')]
         [Debug (Const ''run task stub''), Task (Var ''stub'') []] (Some [(''rate'', ''10.0'')])]"
  by code_simp

lemma parts_task_unit_no_dist: "script_parts 100 input_task_unit_no_dist =
  Inr [Work_parts ''main'' [] [Debug (Const ''run task stub''), Task (Var ''stub'') []] None]"
  by code_simp

lemma parts_ping_with_machine: "script_parts 100 input_ping_with_machine =
  Inr [Machine_parts [Pair R_machineInstruction ''server(8080);''
         [Pair R_mInstrName ''server'' [leaf R_server ''server''],
          Pair R_args ''(8080)'' [Pair R_arg ''8080'' [leaf R_constant ''8080'']]]],
       Work_parts ''main'' [] [Debug (Const ''ping server''), Ping (Const ''127.0.0.1:8080'')] None]"
  by code_simp

lemma f64_from_str_10: "f64_from_str ''10.0'' = Some (Fin 10)"
  using f64_of_rat_of_int [of 10]
  by (simp add: f64_from_str_def decimal_from_str_def exponent_from_str_def digits_value_def
      is_digit_def digit_of_def to_lower_def power_int_def)

lemma args_len_two: "k \<noteq> k' \<Longrightarrow> args_len [k \<mapsto> v, k' \<mapsto> v'] = 2"
  by (simp add: args_len_def)

lemmas test_simps = f64_from_str_100 f64_from_str_10 collect_map_def args_len_two with_ast_def index_at_def
  assert_arg_def assert_at_def assert_dist_def assert_eq_def

lemma server_8080: "build_ast_from_minstr [Pair R_machineInstruction ''server(8080);''
    [Pair R_mInstrName ''server'' [leaf R_server ''server''],
     Pair R_args ''(8080)'' [Pair R_arg ''8080'' [leaf R_constant ''8080'']]]] = Inr [Server 8080]"
  by (simp add: build_ast_from_minstr_def build_minstr_def leaf_def first_nested_pair_def pair_to_string_def
      u16_from_str_def nat_from_str_def digit_of_def)

lemma parser_tests:
  assumes "generated_parser parse"
  shows "test_single_work_unit parse = Inr ()" and "test_multiple_work_units parse = Inr ()"
    and "test_task_unit parse = Inr ()" and "test_task_unit_no_dist parse = Inr ()"
    and "test_ping_with_machine parse = Inr ()"
proof -
  note nodes = script_parts_nodes [OF assms]
  show "test_single_work_unit parse = Inr ()"
    using nodes [OF parts_single_work_unit] by (simp add: test_single_work_unit_def test_simps)
  show "test_multiple_work_units parse = Inr ()"
    using nodes [OF parts_multiple_work_units] by (simp add: test_multiple_work_units_def test_simps)
  show "test_task_unit parse = Inr ()"
    using nodes [OF parts_task_unit] by (simp add: test_task_unit_def test_simps)
  show "test_task_unit_no_dist parse = Inr ()"
    using nodes [OF parts_task_unit_no_dist] by (simp add: test_task_unit_no_dist_def test_simps)
  show "test_ping_with_machine parse = Inr ()"
    using nodes [OF parts_ping_with_machine] by (simp add: test_ping_with_machine_def test_simps server_8080)
qed

section \<open>The tests of the configuration\<close>

text \<open>
  \<open>Config::builder().add_source(File::from_str(input, Toml)).build()\<close> is code of the
  config crate: the function \<open>build\<close> from a text to its typed fields. What it
  reads from the four texts is the hypothesis \<open>reads_toml\<close>.
\<close>

definition with_config ::
    "(string \<Rightarrow> 'e + raw_config) \<Rightarrow> string \<Rightarrow> (WorkloadConfig \<Rightarrow> panic + unit) \<Rightarrow> panic + unit" where
  "with_config build input test =
     (case build input of
        Inl e \<Rightarrow> Inl (Expect ''failed to parse configuration'')
      | Inr raw \<Rightarrow>
          (case WorkloadConfig_of raw of
             Inl e \<Rightarrow> Inl (Expect ''failed to deserialize into WorkloadConfig'')
           | Inr config \<Rightarrow> bind_res (assert_eq (restart_interval config) 10) (\<lambda>_. test config)))"

definition input_processes :: string where
  "input_processes = unlines [[],
     ''            restart_interval = 10'',
     [],
     ''            [workload]'',
     ''            type = '' @ dq @ ''processes'' @ dq,
     ''            arrival_rate = 10.0'',
     ''            departure_rate = 200.0'',
     ''            random_process = true'',
     ''        '']"

definition input_endpoints_zipf :: string where
  "input_endpoints_zipf = unlines [[],
     ''            restart_interval = 10'',
     [],
     ''            [workload]'',
     ''            type = '' @ dq @ ''endpoints'' @ dq,
     ''            distribution = '' @ dq @ ''zipf'' @ dq,
     ''            n_ports = 200'',
     ''            exponent = 1.4'',
     ''        '']"

definition input_endpoints_uniform :: string where
  "input_endpoints_uniform = unlines [[],
     ''            restart_interval = 10'',
     [],
     ''            [workload]'',
     ''            type = '' @ dq @ ''endpoints'' @ dq,
     ''            distribution = '' @ dq @ ''uniform'' @ dq,
     ''            upper = 100'',
     ''            lower = 1'',
     ''        '']"

definition input_syscalls :: string where
  "input_syscalls = unlines [[],
     ''            restart_interval = 10'',
     [],
     ''            [workload]'',
     ''            type = '' @ dq @ ''syscalls'' @ dq,
     ''            arrival_rate = 10.0'',
     ''        '']"

definition raw_test :: "raw_workload \<Rightarrow> raw_config" where
  "raw_test w = \<lparr>raw_restart_interval = Some 10, raw_per_core = None, raw_workers = None,
     raw_workload_table = Some w, raw_duration = None\<rparr>"

definition reads_toml :: "(string \<Rightarrow> 'e + raw_config) \<Rightarrow> bool" where
  "reads_toml build \<longleftrightarrow>
     build input_processes = Inr (raw_test (raw_empty\<lparr>raw_type := Some ''processes'',
       raw_arrival_rate := Some (Fin 10), raw_departure_rate := Some (Fin 200), raw_random_process := Some True\<rparr>)) \<and>
     build input_endpoints_zipf = Inr (raw_test (raw_empty\<lparr>raw_type := Some ''endpoints'',
       raw_distribution := Some ''zipf'', raw_n_ports := Some 200, raw_exponent := Some (f64_of_rat (14 / 10))\<rparr>)) \<and>
     build input_endpoints_uniform = Inr (raw_test (raw_empty\<lparr>raw_type := Some ''endpoints'',
       raw_distribution := Some ''uniform'', raw_upper := Some 100, raw_lower := Some 1\<rparr>)) \<and>
     build input_syscalls = Inr (raw_test (raw_empty\<lparr>raw_type := Some ''syscalls'',
       raw_arrival_rate := Some (Fin 10)\<rparr>))"

definition test_processes :: "(string \<Rightarrow> 'e + raw_config) \<Rightarrow> panic + unit" where
  "test_processes build = with_config build input_processes (\<lambda>config.
     case workload config of
       Processes ar dr rp \<Rightarrow>
         checks [assert_eq ar (Fin 10), assert_eq dr (Fin 200), assert_eq rp True]
     | _ \<Rightarrow> Inl (Panic_msg ''wrong workload type found''))"

definition test_endpoints_zipf :: "(string \<Rightarrow> 'e + raw_config) \<Rightarrow> panic + unit" where
  "test_endpoints_zipf build = with_config build input_endpoints_zipf (\<lambda>config.
     case workload config of
       Endpoints di \<Rightarrow>
         (case di of
            Zipfian np ex \<Rightarrow> checks [assert_eq np 200, assert_eq ex (f64_of_rat (14 / 10))]
          | _ \<Rightarrow> Inl (Panic_msg ''wrong distribution type found''))
     | _ \<Rightarrow> Inl (Panic_msg ''wrong workload type found''))"

definition test_endpoints_uniform :: "(string \<Rightarrow> 'e + raw_config) \<Rightarrow> panic + unit" where
  "test_endpoints_uniform build = with_config build input_endpoints_uniform (\<lambda>config.
     case workload config of
       Endpoints di \<Rightarrow>
         (case di of
            Uniform lo up \<Rightarrow> checks [assert_eq lo 1, assert_eq up 100]
          | _ \<Rightarrow> Inl (Panic_msg ''wrong distribution type found''))
     | _ \<Rightarrow> Inl (Panic_msg ''wrong workload type found''))"

definition test_syscalls :: "(string \<Rightarrow> 'e + raw_config) \<Rightarrow> panic + unit" where
  "test_syscalls build = with_config build input_syscalls (\<lambda>config.
     case workload config of
       Syscalls ar tight nr args \<Rightarrow> assert_eq ar (Fin 10)
     | _ \<Rightarrow> Inl (Panic_msg ''wrong workload type found''))"

lemma config_tests:
  assumes "reads_toml build"
  shows "test_processes build = Inr ()" and "test_endpoints_zipf build = Inr ()"
    and "test_endpoints_uniform build = Inr ()" and "test_syscalls build = Inr ()"
  using assms unfolding reads_toml_def
  by (simp_all add: test_processes_def test_endpoints_zipf_def test_endpoints_uniform_def test_syscalls_def
      with_config_def raw_test_def WorkloadConfig_of_def Workload_of_def Distribution_of_def required_def raw_empty_def
      args_field_def)

section \<open>The test of the local endpoints\<close>

text \<open>\<open>Ipv4Address::new(a, b, c, d)\<close> and \<open>IpAddress::v4(a, b, c, d)\<close>\<close>

definition ipv4 :: "u32 \<Rightarrow> u32 \<Rightarrow> u32 \<Rightarrow> u32 \<Rightarrow> u32" where
  "ipv4 a b c d = ((a * 256 + b) * 256 + c) * 256 + d"

definition addr_cases :: "(u32 \<times> u16 \<times> u32 \<times> u32 \<times> u16) list" where
  "addr_cases =
     [(ipv4 192 168 1 100, 10, 15, ipv4 192 168 1 102, 49157),
      (ipv4 192 168 1 255, 9, 15, ipv4 192 168 2 1, 49158),
      (ipv4 192 255 255 255, 12, 15, ipv4 193 0 0 1, 49155),
      (ipv4 192 168 1 100, 1, 512, ipv4 192 168 3 101, 49152),
      (ipv4 192 168 1 100, 1, 65636, ipv4 192 169 1 201, 49152),
      (ipv4 10 0 0 1, 100, 1, ipv4 10 0 0 2, 49153)]"

definition test_get_local_addr_port :: "bool \<Rightarrow> panic + unit" where
  "test_get_local_addr_port oc =
     checks (map (\<lambda>(addr, conns_per_addr, i, expected_ip, expected_port).
       bind_res (get_local_addr_port oc addr conns_per_addr i) (\<lambda>(ip, port).
       checks [assert_eq ip expected_ip, assert_eq port expected_port])) addr_cases)"

lemma address_test: "test_get_local_addr_port oc = Inr ()"
  by (simp add: test_get_local_addr_port_def addr_cases_def ipv4_def get_local_addr_port_def add_oc_def)

section \<open>Properties\<close>

text \<open>
  Every unit test of the repository passes: those of the script parser with any
  parser that implements the grammar, from the text of the script to the last
  field of its syntax tree; those of the configuration with any reader of their
  TOML texts; and the one of the local endpoints with and without overflow checks.
\<close>

lemma unit_tests_pass:
  assumes "generated_parser parse" and "reads_toml build"
  shows "[test_single_work_unit parse, test_multiple_work_units parse, test_task_unit parse,
          test_task_unit_no_dist parse, test_ping_with_machine parse,
          test_processes build, test_endpoints_zipf build, test_endpoints_uniform build, test_syscalls build,
          test_get_local_addr_port oc] = replicate 10 (Inr ())"
  by (simp add: parser_tests [OF assms(1)] config_tests [OF assms(2)] address_test eval_nat_numeral)

definition demo_toml :: "string \<Rightarrow> unit + raw_config" where
  "demo_toml s =
     (if s = input_processes then Inr (raw_test (raw_empty\<lparr>raw_type := Some ''processes'',
        raw_arrival_rate := Some (Fin 10), raw_departure_rate := Some (Fin 200), raw_random_process := Some True\<rparr>))
      else if s = input_endpoints_zipf then Inr (raw_test (raw_empty\<lparr>raw_type := Some ''endpoints'',
        raw_distribution := Some ''zipf'', raw_n_ports := Some 200, raw_exponent := Some (f64_of_rat (14 / 10))\<rparr>))
      else if s = input_endpoints_uniform then Inr (raw_test (raw_empty\<lparr>raw_type := Some ''endpoints'',
        raw_distribution := Some ''uniform'', raw_upper := Some 100, raw_lower := Some 1\<rparr>))
      else if s = input_syscalls then Inr (raw_test (raw_empty\<lparr>raw_type := Some ''syscalls'',
        raw_arrival_rate := Some (Fin 10)\<rparr>))
      else Inl ())"

lemma demo_toml_reads: "reads_toml demo_toml"
proof -
  have "distinct [input_processes, input_endpoints_zipf, input_endpoints_uniform, input_syscalls]"
    by code_simp
  then show ?thesis by (auto simp: reads_toml_def demo_toml_def)
qed

lemma unit_tests_pass_witness:
  "[test_single_work_unit reference_parse, test_multiple_work_units reference_parse, test_task_unit reference_parse,
    test_task_unit_no_dist reference_parse, test_ping_with_machine reference_parse,
    test_processes demo_toml, test_endpoints_zipf demo_toml, test_endpoints_uniform demo_toml,
    test_syscalls demo_toml, test_get_local_addr_port True] = replicate 10 (Inr ())"
  by (rule unit_tests_pass [OF reference.generated_parser_axioms demo_toml_reads])

end
