(* ===== verification/Payload_Loop.thy ===== *)
theory Payload_Loop
  imports Rust_F64 "HOL-Library.State_Monad"
begin

text \<open>
  What the syscall worker and the io\_uring worker share: a trace of what a
  worker did, resources read off a trace, and the loop of their
  \<open>run_payload\<close>, which \<open>worker/syscalls/mod.rs\<close> and \<open>worker/io_uring/mod.rs\<close>
  write with the same text around a different call.
\<close>

section \<open>Traces\<close>

text \<open>
  What a worker does is appended to a trace: an event of its component with the
  answer it got, a sleep in nanoseconds, or a reported rate.
\<close>

datatype 'a entry = Ev 'a | Slept u64 | Reported u64

type_synonym 'a trace = "'a entry list"

definition note_entry :: "'a entry \<Rightarrow> ('a trace, unit) state" where
  "note_entry e = State (\<lambda>w. ((), w @ [e]))"

text \<open>The operator \<open>?\<close> on a \<open>Result\<close>.\<close>

definition try_res ::
    "('w, 'e + 'a) state \<Rightarrow> ('a \<Rightarrow> ('w, 'e + 'b) state) \<Rightarrow> ('w, 'e + 'b) state" where
  "try_res m f = do { r \<leftarrow> m; case r of Inl e \<Rightarrow> State_Monad.return (Inl e) | Inr a \<Rightarrow> f a }"

lemma run_note_entry [simp]: "run_state (note_entry e) w = ((), w @ [e])"
  by (simp add: note_entry_def)

lemma run_try_res:
  "run_state (try_res m f) w =
     (case run_state m w of (Inl e, w') \<Rightarrow> (Inl e, w') | (Inr a, w') \<Rightarrow> run_state (f a) w')"
  by (simp add: try_res_def split: prod.splits sum.splits)

text \<open>
  A resource that a trace acquires and releases: \<open>eff\<close> is the effect of one
  event, \<open>l0\<close> what was held at the start of the trace.
\<close>

fun entry_effect :: "('a \<Rightarrow> 'l \<Rightarrow> 'l) \<Rightarrow> 'l \<Rightarrow> 'a entry \<Rightarrow> 'l" where
  "entry_effect eff l (Ev a) = eff a l"
| "entry_effect eff l _ = l"

definition ledger :: "('a \<Rightarrow> 'l \<Rightarrow> 'l) \<Rightarrow> 'l \<Rightarrow> 'a trace \<Rightarrow> 'l" where
  "ledger eff l0 w = foldl (entry_effect eff) l0 w"

lemma ledger_Nil [simp]: "ledger eff l0 [] = l0"
  by (simp add: ledger_def)

lemma ledger_append [simp]: "ledger eff l0 (w @ w') = ledger eff (ledger eff l0 w) w'"
  by (simp add: ledger_def)

lemma ledger_Cons [simp]: "ledger eff l0 (e # w) = ledger eff (entry_effect eff l0 e) w"
  by (simp add: ledger_def)

section \<open>The loop\<close>

text \<open>
  The two variables of the loop. Instants are nanoseconds; \<open>Instant::elapsed\<close>
  saturates at zero, as subtraction on \<open>nat\<close> does.
\<close>

record loop_state =
  counter :: u64
  start :: nat

text \<open>
  What one iteration reads from outside: the clock at the check, at the rate in
  the log line and at the restart, and the next sample of the distribution.
\<close>

record loop_tick =
  at_check :: nat
  at_rate :: nat
  at_restart :: nat
  drawn :: f64

definition elapsed_secs :: "nat \<Rightarrow> nat \<Rightarrow> nat" where
  "elapsed_secs now since = (now - since) div 1000000000"

definition report_rate :: "loop_tick \<Rightarrow> loop_state \<Rightarrow> ('a trace, panic + loop_state) state" where
  "report_rate tk st =
     (if 10 < elapsed_secs (at_check tk) (start st) then
        let secs = elapsed_secs (at_rate tk) (start st) in
        if secs = 0 then State_Monad.return (Inl Div_by_zero)
        else do {
          _ \<leftarrow> note_entry (Reported (of_nat (unat (counter st) div secs)));
          State_Monad.return (Inr \<lparr>counter = 0, start = at_restart tk\<rparr>)
        }
      else State_Monad.return (Inr st))"

definition loop_delay :: "loop_tick \<Rightarrow> u64" where
  "loop_delay tk = of_int (scaled 64 1000000 (drawn tk))"

text \<open>One iteration around \<open>call\<close>, whose result is only logged.\<close>

definition payload_step ::
    "bool \<Rightarrow> bool \<Rightarrow> ('a trace, 'r) state \<Rightarrow> loop_tick \<Rightarrow> loop_state \<Rightarrow>
     ('a trace, panic + loop_state) state" where
  "payload_step oc tight call tk st =
     try_res (report_rate tk st) (\<lambda>st1.
     try_res (State_Monad.return (add_oc oc (counter st1) 1)) (\<lambda>n.
     do {
       _ \<leftarrow> call;
       if tight then State_Monad.return (Inr (st1\<lparr>counter := n\<rparr>))
       else do {
         _ \<leftarrow> note_entry (Slept (loop_delay tk));
         State_Monad.return (Inr (st1\<lparr>counter := n\<rparr>))
       }
     }))"

text \<open>The loop never ends by itself: a run over a list of ticks is a prefix of it.\<close>

fun payload_run ::
    "bool \<Rightarrow> bool \<Rightarrow> ('a trace, 'r) state \<Rightarrow> loop_tick list \<Rightarrow> loop_state \<Rightarrow>
     ('a trace, panic + loop_state) state" where
  "payload_run oc tight call [] st = State_Monad.return (Inr st)"
| "payload_run oc tight call (tk # tks) st =
     try_res (payload_step oc tight call tk st) (payload_run oc tight call tks)"

section \<open>Facts on one iteration\<close>

text \<open>The clock of a tick does not run backwards from the check to the log line.\<close>

definition clock_ok :: "loop_tick \<Rightarrow> bool" where
  "clock_ok tk \<longleftrightarrow> at_check tk \<le> at_rate tk"

definition report_entries :: "loop_tick \<Rightarrow> loop_state \<Rightarrow> 'a trace" where
  "report_entries tk st =
     (if 10 < elapsed_secs (at_check tk) (start st)
      then [Reported (of_nat (unat (counter st) div elapsed_secs (at_rate tk) (start st)))] else [])"

definition after_report :: "loop_tick \<Rightarrow> loop_state \<Rightarrow> loop_state" where
  "after_report tk st =
     (if 10 < elapsed_secs (at_check tk) (start st)
      then \<lparr>counter = 0, start = at_restart tk\<rparr> else st)"

lemma elapsed_secs_mono: "a \<le> b \<Longrightarrow> elapsed_secs a s \<le> elapsed_secs b s"
  by (simp add: elapsed_secs_def div_le_mono)

lemma run_report_rate:
  assumes "clock_ok tk"
  shows "run_state (report_rate tk st) w = (Inr (after_report tk st), w @ report_entries tk st)"
  using elapsed_secs_mono [of "at_check tk" "at_rate tk" "start st"] assms
  by (auto simp: report_rate_def report_entries_def after_report_def clock_ok_def Let_def)

lemma counter_after_report: "unat (counter (after_report tk st)) \<le> unat (counter st)"
  by (simp add: after_report_def)

lemma run_payload_step:
  assumes "clock_ok tk" and "unat (counter st) < 2 ^ 64 - 1"
  shows "run_state (payload_step oc tight call tk st) w =
     (Inr ((after_report tk st)\<lparr>counter := counter (after_report tk st) + 1\<rparr>),
      snd (run_state call (w @ report_entries tk st)) @ (if tight then [] else [Slept (loop_delay tk)]))"
proof -
  have "unat (counter (after_report tk st)) + unat (1 :: u64) < 2 ^ LENGTH(64)"
    using assms(2) counter_after_report [of tk st] by simp
  then have "add_oc oc (counter (after_report tk st)) 1 = Inr (counter (after_report tk st) + 1)"
    by (rule add_oc_exact(1))
  with run_report_rate [OF assms(1), of st w] show ?thesis
    by (simp add: payload_step_def run_try_res split: prod.splits)
qed

lemma step_counter:
  assumes "unat (counter st) < 2 ^ 64 - 1"
  shows "unat (counter (after_report tk st) + 1) \<le> unat (counter st) + 1"
proof -
  have "unat (counter (after_report tk st)) + unat (1 :: u64) < 2 ^ LENGTH(64)"
    using assms counter_after_report [of tk st] by simp
  from add_oc_exact(2) [OF this] counter_after_report [of tk st] show ?thesis by simp
qed

text \<open>Whatever the inputs, an iteration calls at most once and adds no other event.\<close>

abbreviation quiet :: "'a trace \<Rightarrow> bool" where
  "quiet es \<equiv> list_all (\<lambda>e. \<forall>a. e \<noteq> Ev a) es"

lemma ledger_quiet [simp]: "quiet es \<Longrightarrow> ledger eff l es = l"
proof (induction es)
  case Nil
  then show ?case by simp
next
  case (Cons e es)
  then show ?case by (cases e) auto
qed

lemma report_rate_trace:
  "\<exists>rep. quiet rep \<and> snd (run_state (report_rate tk st) w) = w @ rep"
  by (auto simp: report_rate_def Let_def intro: exI [of _ "[]"])

lemma payload_step_trace:
  "\<exists>rep post. quiet rep \<and> quiet post \<and>
     (snd (run_state (payload_step oc tight call tk st) w) = w @ rep \<or>
      snd (run_state (payload_step oc tight call tk st) w) = snd (run_state call (w @ rep)) @ post)"
proof -
  obtain r rep where r: "run_state (report_rate tk st) w = (r, w @ rep)" "quiet rep"
    using report_rate_trace [of tk st w] by (metis prod.collapse)
  show ?thesis
  proof (cases "\<exists>st1 n. r = Inr st1 \<and> add_oc oc (counter st1) 1 = Inr n")
    case True
    then obtain st1 n where st1: "r = Inr st1" "add_oc oc (counter st1) 1 = Inr n" by blast
    obtain x w1 where "run_state call (w @ rep) = (x, w1)" by (metis prod.collapse)
    with r st1 show ?thesis
      by (intro exI [of _ rep] exI [of _ "if tight then [] else [Slept (loop_delay tk)]"])
         (simp add: payload_step_def run_try_res)
  next
    case False
    then have "snd (run_state (payload_step oc tight call tk st) w) = w @ rep"
      using r(1) by (cases r; cases "add_oc oc (counter (projr r)) 1")
        (simp_all add: payload_step_def run_try_res)
    with r(2) show ?thesis by (intro exI [of _ rep] exI [of _ "[]"]) simp
  qed
qed

section \<open>Interfaces of the call\<close>

text \<open>
  One block of the trace per iteration: an optional report, the events of the
  call, which are those of one call (\<open>one\<close>), and the sleep unless the loop is tight.
\<close>

definition loop_block :: "('a list \<Rightarrow> bool) \<Rightarrow> bool \<Rightarrow> loop_tick \<Rightarrow> 'a trace \<Rightarrow> bool" where
  "loop_block one tight tk b \<longleftrightarrow>
     (\<exists>rep es. b = rep @ map Ev es @ (if tight then [] else [Slept (loop_delay tk)]) \<and>
        (rep = [] \<or> (\<exists>r. rep = [Reported r])) \<and> one es)"

lemma loop_block_mono: "loop_block P tight tk b \<Longrightarrow> (\<And>es. P es \<Longrightarrow> Q es) \<Longrightarrow> loop_block Q tight tk b"
  unfolding loop_block_def by blast

text \<open>What the loop needs of a call: it appends the events of one call and nothing else.\<close>

locale payload_calls =
  fixes call :: "'c \<Rightarrow> ('a trace, 'r) state" and one :: "'c \<Rightarrow> 'a list \<Rightarrow> bool"
  assumes call_extends: "\<exists>es. one c es \<and> snd (run_state (call c) w) = w @ map Ev es"
begin

lemma step_block:
  assumes "clock_ok tk" and "unat (counter st) < 2 ^ 64 - 1"
  shows "\<exists>b. snd (run_state (payload_step oc tight (call c) tk st) w) = w @ b \<and> loop_block (one c) tight tk b"
proof -
  obtain es where es: "snd (run_state (call c) (w @ report_entries tk st)) =
      (w @ report_entries tk st) @ map Ev es" "one c es" using call_extends by blast
  have "report_entries tk st = [] \<or> (\<exists>r. report_entries tk st = [Reported r] )"
    by (simp add: report_entries_def)
  then show ?thesis
    using run_payload_step [OF assms, of oc tight "call c" w] es
    by (auto simp: loop_block_def)
qed

lemma run_blocks:
  assumes "list_all clock_ok tks" and "unat (counter st) + length tks < 2 ^ 64"
  shows "\<exists>st' bs. run_state (payload_run oc tight (call c) tks st) w = (Inr st', w @ concat bs) \<and>
           list_all2 (loop_block (one c) tight) tks bs \<and>
           unat (counter st') \<le> unat (counter st) + length tks"
  using assms
proof (induction tks arbitrary: st w)
  case Nil
  then show ?case by (auto intro!: exI [of _ "[]"])
next
  case (Cons tk tks)
  then have ok: "clock_ok tk" "unat (counter st) < 2 ^ 64 - 1" by auto
  define st1 where "st1 = (after_report tk st)\<lparr>counter := counter (after_report tk st) + 1\<rparr>"
  obtain b where b: "run_state (payload_step oc tight (call c) tk st) w = (Inr st1, w @ b)"
    "loop_block (one c) tight tk b"
    using step_block [OF ok] run_payload_step [OF ok] by (metis st1_def snd_conv)
  have st1: "unat (counter st1) \<le> unat (counter st) + 1"
    using step_counter [OF ok(2)] by (simp add: st1_def)
  with Cons.prems have "list_all clock_ok tks" "unat (counter st1) + length tks < 2 ^ 64"
    by simp_all
  from Cons.IH [OF this, of "w @ b"] obtain st' bs where
    "run_state (payload_run oc tight (call c) tks st1) (w @ b) = (Inr st', (w @ b) @ concat bs)"
    "list_all2 (loop_block (one c) tight) tks bs" "unat (counter st') \<le> unat (counter st1) + length tks"
    by blast
  with b st1 show ?case
    by (intro exI [of _ st'] exI [of _ "b # bs"]) (simp add: run_try_res)
qed

end

text \<open>
  An assertion on the trace that every call keeps and that does not look at
  sleeps and reports: so does the loop, however long it runs and whether or not
  it panics.
\<close>

locale payload_inv =
  fixes call :: "'c \<Rightarrow> ('a trace, 'r) state" and inv :: "'c \<Rightarrow> 'a trace \<Rightarrow> bool"
  assumes call_inv: "inv c w \<Longrightarrow> inv c (snd (run_state (call c) w))"
    and quiet_inv: "inv c w \<Longrightarrow> quiet es \<Longrightarrow> inv c (w @ es)"
begin

lemma step_inv:
  assumes "inv c w"
  shows "inv c (snd (run_state (payload_step oc tight (call c) tk st) w))"
  using payload_step_trace [of oc tight "call c" tk st w] call_inv quiet_inv assms by metis

lemma run_inv:
  assumes "inv c w"
  shows "inv c (snd (run_state (payload_run oc tight (call c) tks st) w))"
  using assms
proof (induction tks arbitrary: st w)
  case Nil
  then show ?case by simp
next
  case (Cons tk tks)
  then show ?case using step_inv [OF Cons.prems, of oc tight tk st]
    by (auto simp: run_try_res split: prod.splits sum.splits)
qed

end

text \<open>A call that leaves a resource as it found it, for the callers in \<open>frame\<close>.\<close>

locale payload_frame =
  fixes call :: "'c \<Rightarrow> ('a trace, 'r) state"
    and eff :: "'a \<Rightarrow> 'l \<Rightarrow> 'l" and l0 :: 'l and frame :: "'c \<Rightarrow> bool"
  assumes call_keeps: "frame c \<Longrightarrow> ledger eff l0 (snd (run_state (call c) w)) = ledger eff l0 w"

sublocale payload_frame \<subseteq> held: payload_inv call "\<lambda>c w. frame c \<and> ledger eff l0 w = l" for l
  by unfold_locales (simp_all add: call_keeps)

context payload_frame
begin

lemma run_keeps:
  assumes "frame c"
  shows "ledger eff l0 (snd (run_state (payload_run oc tight (call c) tks st) w)) = ledger eff l0 w"
  using held.run_inv [of c w "ledger eff l0 w"] assms by blast

end

end
