(* ===== verification/Syscalls.thy ===== *)
theory Syscalls
  imports Config Payload_Loop
begin

unbundle bit_operations_syntax

text \<open>
  The syscall worker, \<open>src/worker/syscalls\<close>: one record per caller with its
  \<open>new\<close>, \<open>init\<close>, \<open>call\<close> and \<open>drop\<close>, the dispatch of \<open>SysCallerEnum\<close>, and
  \<open>run_payload\<close> on top of the shared loop. The kernel is a parameter: any
  function from the trace so far and the call to an answer.
\<close>

section \<open>Calls to the operating system\<close>

text \<open>The numbers the sources name, and any other number.\<close>

datatype Sysno =
    Sys_open | Sys_close | Sys_mmap | Sys_munmap | Sys_ioctl | Sys_socket | Sys_connect
  | Sys_accept | Sys_accept4 | Sys_listen | Sys_unlink | Sys_chmod | Sys_chown | Sys_setuid
  | Sys_setreuid | Sys_setresuid | Sys_capset | Sys_prctl | Sys_mount | Sys_umount2
  | Sys_openat | Sys_unshare | Sys_other u32

record sockaddr_in =
  sin_family :: u16
  sin_port :: u16
  sin_addr :: u32

text \<open>An argument register: a number, or a pointer with what it points to.\<close>

datatype sysarg = Num usize | CStr string | Sockaddr sockaddr_in

text \<open>
  Raw system calls, \<open>File::open\<close> of the standard library and \<open>caps::set\<close> with the
  set and the capabilities. An answer is the error number or the returned value.
\<close>

datatype os_call =
    Syscall Sysno "sysarg list"
  | File_open string
  | Caps_set string "string list"

type_synonym errno = i32
type_synonym answer = "errno + usize"
type_synonym os_event = "os_call \<times> answer"
type_synonym os_trace = "os_event trace"
type_synonym kernel = "os_trace \<Rightarrow> os_call \<Rightarrow> answer"

definition sys :: "kernel \<Rightarrow> os_call \<Rightarrow> (os_trace, answer) state" where
  "sys k c = State (\<lambda>w. let r = k w c in (r, w @ [Ev (c, r)]))"

lemma run_sys [simp]: "run_state (sys k c) w = (k w c, w @ [Ev (c, k w c)])"
  by (simp add: sys_def Let_def)

section \<open>Constants of the C library\<close>

definition AF_INET :: usize where "AF_INET = 2"
definition SOCK_STREAM :: usize where "SOCK_STREAM = 1"
definition SOCK_NONBLOCK :: usize where "SOCK_NONBLOCK = 2048"
definition PROT_READ :: usize where "PROT_READ = 1"
definition PROT_WRITE :: usize where "PROT_WRITE = 2"
definition PROT_EXEC :: usize where "PROT_EXEC = 4"
definition MAP_PRIVATE :: usize where "MAP_PRIVATE = 2"
definition MAP_ANONYMOUS :: usize where "MAP_ANONYMOUS = 32"
definition MS_PRIVATE :: usize where "MS_PRIVATE = 262144"
definition PR_GET_KEEPCAPS :: usize where "PR_GET_KEEPCAPS = 7"
definition S_ISVTX :: usize where "S_ISVTX = 512"
definition S_IRWXU :: usize where "S_IRWXU = 448"
definition S_IRWXG :: usize where "S_IRWXG = 56"
definition S_IRWXO :: usize where "S_IRWXO = 7"

text \<open>\<open>htons\<close> on a little-endian machine, and \<open>u32::from_le_bytes\<close>.\<close>

definition htons :: "u16 \<Rightarrow> u16" where
  "htons x = push_bit 8 x OR drop_bit 8 x"

definition u32_from_le_bytes :: "u8 list \<Rightarrow> u32" where
  "u32_from_le_bytes bs = foldr (\<lambda>b acc. ucast b OR push_bit 8 acc) bs 0"

abbreviation arg_usize :: "args_map \<Rightarrow> string \<Rightarrow> usize \<Rightarrow> usize" where
  "arg_usize \<equiv> ArgsMap_get usize_from_str"

abbreviation arg_cstring :: "args_map \<Rightarrow> string \<Rightarrow> string \<Rightarrow> string" where
  "arg_cstring \<equiv> ArgsMap_get cstring_from_str"

section \<open>The callers\<close>

text \<open>\<open>dummy.rs\<close>\<close>

record DummyCall =
  dummy_syscall :: Sysno

definition DummyCall_new :: "args_map \<Rightarrow> Sysno \<Rightarrow> DummyCall" where
  "DummyCall_new args s = \<lparr>dummy_syscall = s\<rparr>"

definition DummyCall_call :: "kernel \<Rightarrow> DummyCall \<Rightarrow> (os_trace, answer) state" where
  "DummyCall_call k c = sys k (Syscall (dummy_syscall c) [])"

text \<open>\<open>open.rs\<close>\<close>

record OpenCall =
  open_pathname :: string
  open_flags :: usize
  open_mode :: usize

definition OpenCall_new :: "args_map \<Rightarrow> OpenCall" where
  "OpenCall_new args = \<lparr>open_pathname = arg_cstring args ''pathname'' ''/tmp'',
     open_flags = arg_usize args ''flags'' 0, open_mode = arg_usize args ''mode'' 0\<rparr>"

definition OpenCall_call :: "kernel \<Rightarrow> OpenCall \<Rightarrow> (os_trace, answer) state" where
  "OpenCall_call k c = do {
     res \<leftarrow> sys k (Syscall Sys_open [CStr (open_pathname c), Num (open_flags c), Num (open_mode c)]);
     case res of
       Inr fd \<Rightarrow> do { _ \<leftarrow> sys k (Syscall Sys_close [Num fd]); State_Monad.return res }
     | Inl _ \<Rightarrow> State_Monad.return res
   }"

text \<open>\<open>openat.rs\<close>\<close>

record OpenatCall =
  openat_dirfd :: usize
  openat_pathname :: string
  openat_flags :: usize
  openat_mode :: usize

definition OpenatCall_new :: "args_map \<Rightarrow> OpenatCall" where
  "OpenatCall_new args = \<lparr>openat_dirfd = 0, openat_pathname = arg_cstring args ''pathname'' ''/tmp'',
     openat_flags = arg_usize args ''flags'' 0, openat_mode = arg_usize args ''mode'' 0\<rparr>"

definition OpenatCall_call :: "kernel \<Rightarrow> OpenatCall \<Rightarrow> (os_trace, answer) state" where
  "OpenatCall_call k c = do {
     res \<leftarrow> sys k (Syscall Sys_openat
       [Num (openat_dirfd c), CStr (openat_pathname c), Num (openat_flags c), Num (openat_mode c)]);
     case res of
       Inr fd \<Rightarrow> do { _ \<leftarrow> sys k (Syscall Sys_close [Num fd]); State_Monad.return res }
     | Inl _ \<Rightarrow> State_Monad.return res
   }"

text \<open>\<open>socket.rs\<close>\<close>

record SocketCall =
  sock_domain :: usize
  sock_stype :: usize
  sock_protocol :: usize

definition SocketCall_new :: "args_map \<Rightarrow> SocketCall" where
  "SocketCall_new args = \<lparr>sock_domain = arg_usize args ''domain'' AF_INET,
     sock_stype = arg_usize args ''type'' SOCK_STREAM,
     sock_protocol = arg_usize args ''protocol'' 0\<rparr>"

definition SocketCall_call :: "kernel \<Rightarrow> SocketCall \<Rightarrow> (os_trace, answer) state" where
  "SocketCall_call k c = do {
     res \<leftarrow> sys k (Syscall Sys_socket
       [Num (sock_domain c), Num (sock_stype c OR SOCK_NONBLOCK), Num (sock_protocol c)]);
     case res of
       Inr fd \<Rightarrow> do { _ \<leftarrow> sys k (Syscall Sys_close [Num fd]); State_Monad.return res }
     | Inl _ \<Rightarrow> State_Monad.return res
   }"

text \<open>\<open>connect.rs\<close>\<close>

record ConnectCall =
  connect_socket_call :: SocketCall
  connect_sockfd :: usize
  connect_serv_addr :: sockaddr_in
  connect_addrlen :: usize

definition ConnectCall_new :: "args_map \<Rightarrow> ConnectCall" where
  "ConnectCall_new args = \<lparr>connect_socket_call = SocketCall_new args, connect_sockfd = 0,
     connect_serv_addr = \<lparr>sin_family = ucast AF_INET, sin_port = htons 63333,
       sin_addr = u32_from_le_bytes [127, 0, 0, 1]\<rparr>,
     connect_addrlen = 16\<rparr>"

definition ConnectCall_drop :: "kernel \<Rightarrow> ConnectCall \<Rightarrow> (os_trace, unit) state" where
  "ConnectCall_drop k c = do {
     _ \<leftarrow> sys k (Syscall Sys_close [Num (connect_sockfd c)]);
     State_Monad.return ()
   }"

text \<open>An \<open>init\<close> returns its result and the caller as it left it.\<close>

definition ConnectCall_init :: "kernel \<Rightarrow> ConnectCall \<Rightarrow> (os_trace, answer \<times> ConnectCall) state" where
  "ConnectCall_init k c = do {
     r \<leftarrow> sys k (Syscall Sys_socket
       [Num (sock_domain (connect_socket_call c)),
        Num (sock_stype (connect_socket_call c) OR SOCK_NONBLOCK),
        Num (sock_protocol (connect_socket_call c))]);
     case r of
       Inl e \<Rightarrow> State_Monad.return (Inl e, c)
     | Inr fd \<Rightarrow> State_Monad.return (Inr fd, c\<lparr>connect_sockfd := fd\<rparr>)
   }"

definition ConnectCall_call :: "kernel \<Rightarrow> ConnectCall \<Rightarrow> (os_trace, answer) state" where
  "ConnectCall_call k c = sys k (Syscall Sys_connect
     [Num (connect_sockfd c), Sockaddr (connect_serv_addr c), Num (connect_addrlen c)])"

text \<open>\<open>listen.rs\<close>\<close>

record ListenCall =
  listen_socket_call :: SocketCall
  listen_sockfd :: usize

definition ListenCall_new :: "args_map \<Rightarrow> ListenCall" where
  "ListenCall_new args = \<lparr>listen_socket_call = SocketCall_new args, listen_sockfd = 0\<rparr>"

definition ListenCall_drop :: "kernel \<Rightarrow> ListenCall \<Rightarrow> (os_trace, unit) state" where
  "ListenCall_drop k c = do {
     _ \<leftarrow> sys k (Syscall Sys_close [Num (listen_sockfd c)]);
     State_Monad.return ()
   }"

definition ListenCall_init :: "kernel \<Rightarrow> ListenCall \<Rightarrow> (os_trace, answer \<times> ListenCall) state" where
  "ListenCall_init k c = do {
     r \<leftarrow> sys k (Syscall Sys_socket
       [Num (sock_domain (listen_socket_call c)),
        Num (sock_stype (listen_socket_call c) OR SOCK_NONBLOCK),
        Num (sock_protocol (listen_socket_call c))]);
     case r of
       Inl e \<Rightarrow> State_Monad.return (Inl e, c)
     | Inr fd \<Rightarrow> State_Monad.return (Inr fd, c\<lparr>listen_sockfd := fd\<rparr>)
   }"

definition ListenCall_call :: "kernel \<Rightarrow> ListenCall \<Rightarrow> (os_trace, answer) state" where
  "ListenCall_call k c = sys k (Syscall Sys_listen [Num (listen_sockfd c), Num 10])"

text \<open>\<open>accept.rs\<close>: dropping it drops the \<open>listen_call\<close> inside it.\<close>

record AcceptCall =
  accept_nr :: Sysno
  accept_listen_call :: ListenCall
  accept_sockfd :: usize

definition AcceptCall_new :: "args_map \<Rightarrow> Sysno \<Rightarrow> AcceptCall" where
  "AcceptCall_new args nr =
     \<lparr>accept_nr = nr, accept_listen_call = ListenCall_new args, accept_sockfd = 0\<rparr>"

definition AcceptCall_drop :: "kernel \<Rightarrow> AcceptCall \<Rightarrow> (os_trace, unit) state" where
  "AcceptCall_drop k c = ListenCall_drop k (accept_listen_call c)"

definition AcceptCall_init :: "kernel \<Rightarrow> AcceptCall \<Rightarrow> (os_trace, answer \<times> AcceptCall) state" where
  "AcceptCall_init k c = do {
     (r, l) \<leftarrow> ListenCall_init k (accept_listen_call c);
     case r of
       Inl e \<Rightarrow> State_Monad.return (Inl e, c\<lparr>accept_listen_call := l\<rparr>)
     | Inr fd \<Rightarrow> do {
         r2 \<leftarrow> ListenCall_call k l;
         case r2 of
           Inl e \<Rightarrow> State_Monad.return (Inl e, c\<lparr>accept_listen_call := l, accept_sockfd := fd\<rparr>)
         | Inr _ \<Rightarrow> State_Monad.return (Inr fd, c\<lparr>accept_listen_call := l, accept_sockfd := fd\<rparr>)
       }
   }"

definition AcceptCall_call :: "kernel \<Rightarrow> AcceptCall \<Rightarrow> (os_trace, answer) state" where
  "AcceptCall_call k c = sys k (Syscall (accept_nr c) [Num (accept_sockfd c), Num 0, Num 0, Num 0])"

text \<open>\<open>setuid.rs\<close>, \<open>setreuid.rs\<close>, \<open>setresuid.rs\<close>\<close>

record SetuidCall =
  setuid_uid :: usize

definition SetuidCall_new :: "args_map \<Rightarrow> SetuidCall" where
  "SetuidCall_new args = \<lparr>setuid_uid = arg_usize args ''uid'' 0\<rparr>"

definition SetuidCall_call :: "kernel \<Rightarrow> SetuidCall \<Rightarrow> (os_trace, answer) state" where
  "SetuidCall_call k c = sys k (Syscall Sys_setuid [Num (setuid_uid c)])"

record SetreuidCall =
  setreuid_ruid :: usize
  setreuid_euid :: usize

definition SetreuidCall_new :: "args_map \<Rightarrow> SetreuidCall" where
  "SetreuidCall_new args =
     \<lparr>setreuid_ruid = arg_usize args ''ruid'' 0, setreuid_euid = arg_usize args ''euid'' 0\<rparr>"

definition SetreuidCall_call :: "kernel \<Rightarrow> SetreuidCall \<Rightarrow> (os_trace, answer) state" where
  "SetreuidCall_call k c = sys k (Syscall Sys_setreuid [Num (setreuid_ruid c), Num (setreuid_euid c)])"

record SetresuidCall =
  setresuid_ruid :: usize
  setresuid_euid :: usize
  setresuid_suid :: usize

definition SetresuidCall_new :: "args_map \<Rightarrow> SetresuidCall" where
  "SetresuidCall_new args =
     \<lparr>setresuid_ruid = arg_usize args ''ruid'' 0, setresuid_euid = arg_usize args ''euid'' 0,
      setresuid_suid = arg_usize args ''suid'' 0\<rparr>"

definition SetresuidCall_call :: "kernel \<Rightarrow> SetresuidCall \<Rightarrow> (os_trace, answer) state" where
  "SetresuidCall_call k c = sys k (Syscall Sys_setresuid
     [Num (setresuid_ruid c), Num (setresuid_euid c), Num (setresuid_suid c)])"

text \<open>\<open>mmap.rs\<close>\<close>

record MmapCall =
  mmap_address :: usize
  mmap_length :: usize
  mmap_prot :: usize
  mmap_flags :: usize
  mmap_fd :: usize
  mmap_offset :: usize

definition MmapCall_new :: "args_map \<Rightarrow> MmapCall" where
  "MmapCall_new args = \<lparr>mmap_address = 0, mmap_length = arg_usize args ''length'' 8,
     mmap_prot = arg_usize args ''prot'' (PROT_READ OR PROT_WRITE OR PROT_EXEC),
     mmap_flags = arg_usize args ''flags'' (MAP_PRIVATE OR MAP_ANONYMOUS),
     mmap_fd = arg_usize args ''fd'' (- 1), mmap_offset = arg_usize args ''offset'' 0\<rparr>"

definition MmapCall_drop :: "kernel \<Rightarrow> MmapCall \<Rightarrow> (os_trace, unit) state" where
  "MmapCall_drop k c = do {
     _ \<leftarrow> sys k (Syscall Sys_close [Num (mmap_fd c)]);
     State_Monad.return ()
   }"

definition MmapCall_call :: "kernel \<Rightarrow> MmapCall \<Rightarrow> (os_trace, answer) state" where
  "MmapCall_call k c = do {
     res \<leftarrow> sys k (Syscall Sys_mmap [Num (mmap_address c), Num (mmap_length c), Num (mmap_prot c),
       Num (mmap_flags c), Num (mmap_fd c), Num (mmap_offset c)]);
     case res of
       Inr addr \<Rightarrow> try_res (sys k (Syscall Sys_munmap [Num addr, Num (mmap_length c)]))
                     (\<lambda>_. State_Monad.return res)
     | Inl _ \<Rightarrow> State_Monad.return res
   }"

text \<open>\<open>mount.rs\<close>: the unmount is issued with the target as its only argument.\<close>

record MountCall =
  mount_source :: string
  mount_target :: string
  mount_filesystemtype :: string
  mount_mountflags :: usize
  mount_data :: usize

definition MountCall_new :: "args_map \<Rightarrow> MountCall" where
  "MountCall_new args = \<lparr>mount_source = arg_cstring args ''source'' '''',
     mount_target = arg_cstring args ''target'' ''/tmp'',
     mount_filesystemtype = arg_cstring args ''filesystemtype'' '''',
     mount_mountflags = arg_usize args ''mountflags'' MS_PRIVATE, mount_data = 0\<rparr>"

definition MountCall_call :: "kernel \<Rightarrow> MountCall \<Rightarrow> (os_trace, answer) state" where
  "MountCall_call k c = do {
     res \<leftarrow> sys k (Syscall Sys_mount [CStr (mount_source c), CStr (mount_target c),
       CStr (mount_filesystemtype c), Num (mount_mountflags c), Num (mount_data c)]);
     if res = Inr 0 then do {
       _ \<leftarrow> sys k (Syscall Sys_umount2 [CStr (mount_target c)]);
       State_Monad.return res
     } else State_Monad.return res
   }"

text \<open>\<open>unlink.rs\<close>, \<open>unshare.rs\<close>, \<open>chown.rs\<close>, \<open>chmod.rs\<close>, \<open>prctl.rs\<close>\<close>

record UnlinkCall =
  unlink_pathname :: string

definition UnlinkCall_new :: "args_map \<Rightarrow> UnlinkCall" where
  "UnlinkCall_new args = \<lparr>unlink_pathname = arg_cstring args ''pathname'' ''/privileged_dir/file''\<rparr>"

definition UnlinkCall_call :: "kernel \<Rightarrow> UnlinkCall \<Rightarrow> (os_trace, answer) state" where
  "UnlinkCall_call k c = sys k (Syscall Sys_unlink [CStr (unlink_pathname c)])"

record UnshareCall =
  unshare_flags :: usize

definition UnshareCall_new :: "args_map \<Rightarrow> UnshareCall" where
  "UnshareCall_new args = \<lparr>unshare_flags = arg_usize args ''flags'' 0\<rparr>"

definition UnshareCall_call :: "kernel \<Rightarrow> UnshareCall \<Rightarrow> (os_trace, answer) state" where
  "UnshareCall_call k c = sys k (Syscall Sys_unshare [Num (unshare_flags c)])"

record ChownCall =
  chown_pathname :: string
  chown_owner :: usize
  chown_group :: usize

definition ChownCall_new :: "args_map \<Rightarrow> ChownCall" where
  "ChownCall_new args = \<lparr>chown_pathname = arg_cstring args ''pathname'' ''/tmp'',
     chown_owner = arg_usize args ''owner'' 0, chown_group = arg_usize args ''group'' 0\<rparr>"

definition ChownCall_call :: "kernel \<Rightarrow> ChownCall \<Rightarrow> (os_trace, answer) state" where
  "ChownCall_call k c = sys k (Syscall Sys_chown
     [CStr (chown_pathname c), Num (chown_owner c), Num (chown_group c)])"

record ChmodCall =
  chmod_pathname :: string
  chmod_mode :: usize

definition ChmodCall_new :: "args_map \<Rightarrow> ChmodCall" where
  "ChmodCall_new args = \<lparr>chmod_pathname = arg_cstring args ''pathname'' ''/tmp'',
     chmod_mode = arg_usize args ''mode'' (S_ISVTX OR S_IRWXU OR S_IRWXG OR S_IRWXO)\<rparr>"

definition ChmodCall_call :: "kernel \<Rightarrow> ChmodCall \<Rightarrow> (os_trace, answer) state" where
  "ChmodCall_call k c = sys k (Syscall Sys_chmod [CStr (chmod_pathname c), Num (chmod_mode c)])"

record PrctlCall =
  prctl_op :: usize
  prctl_arg2 :: usize
  prctl_arg3 :: usize
  prctl_arg4 :: usize
  prctl_arg5 :: usize

definition PrctlCall_new :: "args_map \<Rightarrow> PrctlCall" where
  "PrctlCall_new args = \<lparr>prctl_op = arg_usize args ''op'' PR_GET_KEEPCAPS,
     prctl_arg2 = arg_usize args ''arg2'' 0, prctl_arg3 = arg_usize args ''arg3'' 0,
     prctl_arg4 = arg_usize args ''arg4'' 0, prctl_arg5 = arg_usize args ''arg5'' 0\<rparr>"

definition PrctlCall_call :: "kernel \<Rightarrow> PrctlCall \<Rightarrow> (os_trace, answer) state" where
  "PrctlCall_call k c = sys k (Syscall Sys_prctl [Num (prctl_op c), Num (prctl_arg2 c),
     Num (prctl_arg3 c), Num (prctl_arg4 c), Num (prctl_arg5 c)])"

text \<open>\<open>ioctl.rs\<close>: the error of \<open>File::open\<close> on a fixed path is an OS error.\<close>

record IoctlCall =
  ioctl_fd :: usize
  ioctl_op :: usize
  ioctl_argp :: usize

definition IoctlCall_new :: "args_map \<Rightarrow> IoctlCall" where
  "IoctlCall_new args = \<lparr>ioctl_fd = 0, ioctl_op = 0, ioctl_argp = 0\<rparr>"

definition IoctlCall_drop :: "kernel \<Rightarrow> IoctlCall \<Rightarrow> (os_trace, unit) state" where
  "IoctlCall_drop k c = do {
     _ \<leftarrow> sys k (Syscall Sys_close [Num (ioctl_fd c)]);
     State_Monad.return ()
   }"

definition IoctlCall_init :: "kernel \<Rightarrow> IoctlCall \<Rightarrow> (os_trace, answer \<times> IoctlCall) state" where
  "IoctlCall_init k c = do {
     r \<leftarrow> sys k (File_open ''/dev/null'');
     case r of
       Inl e \<Rightarrow> State_Monad.return (Inl e, c)
     | Inr fd \<Rightarrow> State_Monad.return (Inr fd, c\<lparr>ioctl_fd := fd\<rparr>)
   }"

definition IoctlCall_call :: "kernel \<Rightarrow> IoctlCall \<Rightarrow> (os_trace, answer) state" where
  "IoctlCall_call k c =
     sys k (Syscall Sys_ioctl [Num (ioctl_fd c), Num (ioctl_op c), Num (ioctl_argp c)])"

text \<open>
  \<open>capset.rs\<close>: on success the result is 0, whatever \<open>caps::set\<close> returned; on
  failure it is the error number the operating system left behind.
\<close>

definition CapsetCall_call :: "kernel \<Rightarrow> (os_trace, answer) state" where
  "CapsetCall_call k = do {
     r \<leftarrow> sys k (Caps_set ''Effective'' [''CAP_SYS_ADMIN'']);
     case r of
       Inr _ \<Rightarrow> State_Monad.return (Inr 0)
     | Inl e \<Rightarrow> State_Monad.return (Inl e)
   }"

section \<open>Dispatch\<close>

datatype SysCallerEnum =
    DummyCall DummyCall
  | OpenCall OpenCall
  | OpenatCall OpenatCall
  | SocketCall SocketCall
  | ConnectCall ConnectCall
  | ListenCall ListenCall
  | AcceptCall AcceptCall
  | SetuidCall SetuidCall
  | SetreuidCall SetreuidCall
  | SetresuidCall SetresuidCall
  | MmapCall MmapCall
  | MountCall MountCall
  | UnlinkCall UnlinkCall
  | UnshareCall UnshareCall
  | ChownCall ChownCall
  | ChmodCall ChmodCall
  | PrctlCall PrctlCall
  | IoctlCall IoctlCall
  | CapsetCall

fun SysCallerEnum_new :: "Sysno \<Rightarrow> args_map \<Rightarrow> SysCallerEnum" where
  "SysCallerEnum_new Sys_open args = OpenCall (OpenCall_new args)"
| "SysCallerEnum_new Sys_openat args = OpenatCall (OpenatCall_new args)"
| "SysCallerEnum_new Sys_socket args = SocketCall (SocketCall_new args)"
| "SysCallerEnum_new Sys_connect args = ConnectCall (ConnectCall_new args)"
| "SysCallerEnum_new Sys_listen args = ListenCall (ListenCall_new args)"
| "SysCallerEnum_new Sys_accept args = AcceptCall (AcceptCall_new args Sys_accept)"
| "SysCallerEnum_new Sys_accept4 args = AcceptCall (AcceptCall_new args Sys_accept4)"
| "SysCallerEnum_new Sys_setuid args = SetuidCall (SetuidCall_new args)"
| "SysCallerEnum_new Sys_setreuid args = SetreuidCall (SetreuidCall_new args)"
| "SysCallerEnum_new Sys_setresuid args = SetresuidCall (SetresuidCall_new args)"
| "SysCallerEnum_new Sys_mmap args = MmapCall (MmapCall_new args)"
| "SysCallerEnum_new Sys_mount args = MountCall (MountCall_new args)"
| "SysCallerEnum_new Sys_unlink args = UnlinkCall (UnlinkCall_new args)"
| "SysCallerEnum_new Sys_unshare args = UnshareCall (UnshareCall_new args)"
| "SysCallerEnum_new Sys_chown args = ChownCall (ChownCall_new args)"
| "SysCallerEnum_new Sys_chmod args = ChmodCall (ChmodCall_new args)"
| "SysCallerEnum_new Sys_prctl args = PrctlCall (PrctlCall_new args)"
| "SysCallerEnum_new Sys_ioctl args = IoctlCall (IoctlCall_new args)"
| "SysCallerEnum_new Sys_capset args = CapsetCall"
| "SysCallerEnum_new s args = DummyCall (DummyCall_new args s)"

text \<open>The default \<open>init\<close> of the trait returns \<open>Ok(0)\<close> and changes nothing.\<close>

fun SysCaller_init :: "kernel \<Rightarrow> SysCallerEnum \<Rightarrow> (os_trace, answer \<times> SysCallerEnum) state" where
  "SysCaller_init k (ConnectCall c) =
     do { (r, c') \<leftarrow> ConnectCall_init k c; State_Monad.return (r, ConnectCall c') }"
| "SysCaller_init k (ListenCall c) =
     do { (r, c') \<leftarrow> ListenCall_init k c; State_Monad.return (r, ListenCall c') }"
| "SysCaller_init k (AcceptCall c) =
     do { (r, c') \<leftarrow> AcceptCall_init k c; State_Monad.return (r, AcceptCall c') }"
| "SysCaller_init k (IoctlCall c) =
     do { (r, c') \<leftarrow> IoctlCall_init k c; State_Monad.return (r, IoctlCall c') }"
| "SysCaller_init k c = State_Monad.return (Inr 0, c)"

fun SysCaller_call :: "kernel \<Rightarrow> SysCallerEnum \<Rightarrow> (os_trace, answer) state" where
  "SysCaller_call k (DummyCall c) = DummyCall_call k c"
| "SysCaller_call k (OpenCall c) = OpenCall_call k c"
| "SysCaller_call k (OpenatCall c) = OpenatCall_call k c"
| "SysCaller_call k (SocketCall c) = SocketCall_call k c"
| "SysCaller_call k (ConnectCall c) = ConnectCall_call k c"
| "SysCaller_call k (ListenCall c) = ListenCall_call k c"
| "SysCaller_call k (AcceptCall c) = AcceptCall_call k c"
| "SysCaller_call k (SetuidCall c) = SetuidCall_call k c"
| "SysCaller_call k (SetreuidCall c) = SetreuidCall_call k c"
| "SysCaller_call k (SetresuidCall c) = SetresuidCall_call k c"
| "SysCaller_call k (MmapCall c) = MmapCall_call k c"
| "SysCaller_call k (MountCall c) = MountCall_call k c"
| "SysCaller_call k (UnlinkCall c) = UnlinkCall_call k c"
| "SysCaller_call k (UnshareCall c) = UnshareCall_call k c"
| "SysCaller_call k (ChownCall c) = ChownCall_call k c"
| "SysCaller_call k (ChmodCall c) = ChmodCall_call k c"
| "SysCaller_call k (PrctlCall c) = PrctlCall_call k c"
| "SysCaller_call k (IoctlCall c) = IoctlCall_call k c"
| "SysCaller_call k CapsetCall = CapsetCall_call k"

fun SysCaller_drop :: "kernel \<Rightarrow> SysCallerEnum \<Rightarrow> (os_trace, unit) state" where
  "SysCaller_drop k (ConnectCall c) = ConnectCall_drop k c"
| "SysCaller_drop k (ListenCall c) = ListenCall_drop k c"
| "SysCaller_drop k (AcceptCall c) = AcceptCall_drop k c"
| "SysCaller_drop k (MmapCall c) = MmapCall_drop k c"
| "SysCaller_drop k (IoctlCall c) = IoctlCall_drop k c"
| "SysCaller_drop k _ = State_Monad.return ()"

section \<open>The worker\<close>

record SyscallsWorker =
  sw_config :: BaseConfig
  sw_workload :: WorkloadConfig

definition SyscallsWorker_new :: "WorkloadConfig \<Rightarrow> usize \<Rightarrow> usize \<Rightarrow> SyscallsWorker" where
  "SyscallsWorker_new w c p = \<lparr>sw_config = \<lparr>cpu = c, process = p\<rparr>, sw_workload = w\<rparr>"

text \<open>
  \<open>run_payload\<close> ends in an error, in a panic (which unwinds and drops the
  caller), or is still running after the given ticks. \<open>Sysno::from\<close> is a
  parameter, as are the rates \<open>Exp::new\<close> accepts.
\<close>

datatype payload_outcome = Failed WorkerError | Panicked panic | Running loop_state

definition drop_and :: "kernel \<Rightarrow> SysCallerEnum \<Rightarrow> 'o \<Rightarrow> (os_trace, 'o) state" where
  "drop_and k c out = do { _ \<leftarrow> SysCaller_drop k c; State_Monad.return out }"

definition syscalls_loop ::
    "kernel \<Rightarrow> bool \<Rightarrow> bool \<Rightarrow> SysCallerEnum \<Rightarrow> loop_tick list \<Rightarrow> loop_state \<Rightarrow>
     (os_trace, payload_outcome) state" where
  "syscalls_loop k oc tight c tks st = do {
     r \<leftarrow> payload_run oc tight (SysCaller_call k c) tks st;
     case r of Inl p \<Rightarrow> drop_and k c (Panicked p) | Inr st' \<Rightarrow> State_Monad.return (Running st')
   }"

definition SyscallsWorker_run_payload ::
    "(u32 \<Rightarrow> panic + Sysno) \<Rightarrow> (f64 \<Rightarrow> bool) \<Rightarrow> kernel \<Rightarrow> bool \<Rightarrow> SyscallsWorker \<Rightarrow> nat \<Rightarrow>
     loop_tick list \<Rightarrow> (os_trace, payload_outcome) state" where
  "SyscallsWorker_run_payload sysno_from exp_ok k oc self t0 tks =
     (case workload (sw_workload self) of
        Syscalls rate tight nr args \<Rightarrow>
          (case sysno_from nr of
             Inl p \<Rightarrow> State_Monad.return (Panicked p)
           | Inr s \<Rightarrow> do {
               (r, c) \<leftarrow> SysCaller_init k (SysCallerEnum_new s args);
               case r of
                 Inl _ \<Rightarrow> drop_and k c (Failed Internal)
               | Inr _ \<Rightarrow>
                   (case exp_new exp_ok rate of
                      Inl p \<Rightarrow> drop_and k c (Panicked p)
                    | Inr _ \<Rightarrow> syscalls_loop k oc tight c tks \<lparr>counter = 0, start = t0\<rparr>)
             })
      | _ \<Rightarrow> State_Monad.return (Panicked Unreachable))"

definition show_SyscallsWorker :: "SyscallsWorker \<Rightarrow> string" where
  "show_SyscallsWorker self = show_BaseConfig (sw_config self)"

end
