(* ===== verification/Syscalls_Props.thy ===== *)
theory Syscalls_Props
  imports Syscalls
begin

text \<open>
  The syscall worker: one form of all its calls and what each asks the kernel
  for; how the calls refine an abstract worker on descriptors and mappings, and
  what the worker leaves behind; how its loop schedules the calls; and what happens
  when its initialisation fails.
\<close>

named_theorems caller_defs \<open>the operations of the callers\<close>

lemmas caller_call_defs [caller_defs] =
  DummyCall_call_def OpenCall_call_def OpenatCall_call_def SocketCall_call_def
  ConnectCall_call_def ListenCall_call_def AcceptCall_call_def SetuidCall_call_def
  SetreuidCall_call_def SetresuidCall_call_def MmapCall_call_def MountCall_call_def
  UnlinkCall_call_def UnshareCall_call_def ChownCall_call_def ChmodCall_call_def
  PrctlCall_call_def IoctlCall_call_def CapsetCall_call_def

lemmas caller_init_defs [caller_defs] =
  ConnectCall_init_def ListenCall_init_def AcceptCall_init_def IoctlCall_init_def

lemmas caller_drop_defs [caller_defs] =
  ConnectCall_drop_def ListenCall_drop_def AcceptCall_drop_def MmapCall_drop_def
  IoctlCall_drop_def

lemmas caller_new_defs =
  DummyCall_new_def OpenCall_new_def OpenatCall_new_def SocketCall_new_def ConnectCall_new_def
  ListenCall_new_def AcceptCall_new_def SetuidCall_new_def SetreuidCall_new_def
  SetresuidCall_new_def MmapCall_new_def MountCall_new_def UnlinkCall_new_def
  UnshareCall_new_def ChownCall_new_def ChmodCall_new_def PrctlCall_new_def IoctlCall_new_def

section \<open>A reference for one call\<close>

text \<open>The call a caller is for, and how it undoes a successful one.\<close>

fun primary :: "SysCallerEnum \<Rightarrow> os_call" where
  "primary (DummyCall c) = Syscall (dummy_syscall c) []"
| "primary (OpenCall c) =
     Syscall Sys_open [CStr (open_pathname c), Num (open_flags c), Num (open_mode c)]"
| "primary (OpenatCall c) = Syscall Sys_openat
     [Num (openat_dirfd c), CStr (openat_pathname c), Num (openat_flags c), Num (openat_mode c)]"
| "primary (SocketCall c) = Syscall Sys_socket
     [Num (sock_domain c), Num (sock_stype c OR SOCK_NONBLOCK), Num (sock_protocol c)]"
| "primary (ConnectCall c) = Syscall Sys_connect
     [Num (connect_sockfd c), Sockaddr (connect_serv_addr c), Num (connect_addrlen c)]"
| "primary (ListenCall c) = Syscall Sys_listen [Num (listen_sockfd c), Num 10]"
| "primary (AcceptCall c) = Syscall (accept_nr c) [Num (accept_sockfd c), Num 0, Num 0, Num 0]"
| "primary (SetuidCall c) = Syscall Sys_setuid [Num (setuid_uid c)]"
| "primary (SetreuidCall c) = Syscall Sys_setreuid [Num (setreuid_ruid c), Num (setreuid_euid c)]"
| "primary (SetresuidCall c) = Syscall Sys_setresuid
     [Num (setresuid_ruid c), Num (setresuid_euid c), Num (setresuid_suid c)]"
| "primary (MmapCall c) = Syscall Sys_mmap [Num (mmap_address c), Num (mmap_length c),
     Num (mmap_prot c), Num (mmap_flags c), Num (mmap_fd c), Num (mmap_offset c)]"
| "primary (MountCall c) = Syscall Sys_mount [CStr (mount_source c), CStr (mount_target c),
     CStr (mount_filesystemtype c), Num (mount_mountflags c), Num (mount_data c)]"
| "primary (UnlinkCall c) = Syscall Sys_unlink [CStr (unlink_pathname c)]"
| "primary (UnshareCall c) = Syscall Sys_unshare [Num (unshare_flags c)]"
| "primary (ChownCall c) = Syscall Sys_chown
     [CStr (chown_pathname c), Num (chown_owner c), Num (chown_group c)]"
| "primary (ChmodCall c) = Syscall Sys_chmod [CStr (chmod_pathname c), Num (chmod_mode c)]"
| "primary (PrctlCall c) = Syscall Sys_prctl [Num (prctl_op c), Num (prctl_arg2 c),
     Num (prctl_arg3 c), Num (prctl_arg4 c), Num (prctl_arg5 c)]"
| "primary (IoctlCall c) =
     Syscall Sys_ioctl [Num (ioctl_fd c), Num (ioctl_op c), Num (ioctl_argp c)]"
| "primary CapsetCall = Caps_set ''Effective'' [''CAP_SYS_ADMIN'']"

fun undo :: "SysCallerEnum \<Rightarrow> usize \<Rightarrow> os_call option" where
  "undo (OpenCall c) fd = Some (Syscall Sys_close [Num fd])"
| "undo (OpenatCall c) fd = Some (Syscall Sys_close [Num fd])"
| "undo (SocketCall c) fd = Some (Syscall Sys_close [Num fd])"
| "undo (MmapCall c) addr = Some (Syscall Sys_munmap [Num addr, Num (mmap_length c)])"
| "undo (MountCall c) code =
     (if code = 0 then Some (Syscall Sys_umount2 [CStr (mount_target c)]) else None)"
| "undo c v = None"

text \<open>Only the memory caller reports a failure of its undo.\<close>

fun result_of :: "SysCallerEnum \<Rightarrow> usize \<Rightarrow> answer option \<Rightarrow> answer" where
  "result_of (MmapCall c) v (Some (Inl e)) = Inl e"
| "result_of CapsetCall v u = Inr 0"
| "result_of c v u = Inr v"

definition call_spec :: "kernel \<Rightarrow> SysCallerEnum \<Rightarrow> os_trace \<Rightarrow> answer \<times> os_trace" where
  "call_spec k c w =
     (let a = k w (primary c); w1 = w @ [Ev (primary c, a)]
      in case a of
           Inl e \<Rightarrow> (Inl e, w1)
         | Inr v \<Rightarrow> (case undo c v of
                       None \<Rightarrow> (result_of c v None, w1)
                     | Some u \<Rightarrow> (result_of c v (Some (k w1 u)), w1 @ [Ev (u, k w1 u)])))"

lemma run_SysCaller_call: "run_state (SysCaller_call k c) w = call_spec k c w"
  by (cases c) (auto simp: caller_defs call_spec_def Let_def run_try_res split: sum.splits)

text \<open>
  The events of one call for the system call \<open>s\<close>: the first requests it, no other
  does, and there is at most one other.
\<close>

fun requested :: "os_call \<Rightarrow> Sysno option" where
  "requested (Syscall s args) = Some s"
| "requested (File_open path) = None"
| "requested (Caps_set s cs) = Some Sys_capset"

definition one_request :: "Sysno \<Rightarrow> os_event list \<Rightarrow> bool" where
  "one_request s es \<longleftrightarrow>
     es \<noteq> [] \<and> length es \<le> 2 \<and> requested (fst (hd es)) = Some s \<and>
     length (filter (\<lambda>e. requested (fst e) = Some s) es) = 1"

lemma undo_requested: "undo c v = Some u \<Longrightarrow> requested u \<noteq> requested (primary c)"
  by (cases c) (auto split: if_splits)

lemma primary_requested: "\<exists>s. requested (primary c) = Some s"
  by (cases c) simp_all

lemma run_call_events:
  "\<exists>es. one_request (the (requested (primary c))) es \<and> snd (call_spec k c w) = w @ map Ev es"
proof -
  obtain s where s: "requested (primary c) = Some s" using primary_requested by blast
  let ?e = "(primary c, k w (primary c))"
  show ?thesis
  proof (cases "\<exists>v u. k w (primary c) = Inr v \<and> undo c v = Some u")
    case True
    then obtain v u where u: "k w (primary c) = Inr v" "undo c v = Some u" by blast
    then have "snd (call_spec k c w) = w @ map Ev [?e, (u, k (w @ [Ev ?e]) u)]"
      by (simp add: call_spec_def Let_def)
    moreover have "one_request s [?e, (u, k (w @ [Ev ?e]) u)]"
      using undo_requested [OF u(2)] s by (simp add: one_request_def)
    ultimately show ?thesis using s by (metis option.sel)
  next
    case False
    then have "snd (call_spec k c w) = w @ map Ev [?e]"
      by (cases "k w (primary c)"; cases "undo c (projr (k w (primary c)))") (simp_all add: call_spec_def Let_def)
    moreover have "one_request s [?e]" using s by (simp add: one_request_def)
    ultimately show ?thesis using s by (metis option.sel)
  qed
qed

interpretation caller: payload_calls "\<lambda>(k, c). SysCaller_call k c"
    "\<lambda>(k, c). one_request (the (requested (primary c)))"
  by unfold_locales (simp add: run_SysCaller_call run_call_events split: prod.split)

section \<open>Descriptors\<close>

text \<open>
  The calls that return a new descriptor; \<open>alters\<close> tells which of the numbers
  the sources do not name change the descriptor table.
\<close>

fun opens_fd :: "(u32 \<Rightarrow> bool) \<Rightarrow> os_call \<Rightarrow> bool" where
  "opens_fd alters (Syscall (Sys_other n) args) = alters n"
| "opens_fd alters (Syscall s args) = (s \<in> {Sys_open, Sys_openat, Sys_socket, Sys_accept, Sys_accept4})"
| "opens_fd alters (File_open path) = True"
| "opens_fd alters (Caps_set s cs) = False"

fun closes_fd :: "os_call \<Rightarrow> usize option" where
  "closes_fd (Syscall Sys_close [Num fd]) = Some fd"
| "closes_fd _ = None"

definition fd_effect :: "(u32 \<Rightarrow> bool) \<Rightarrow> os_event \<Rightarrow> usize set \<Rightarrow> usize set" where
  "fd_effect alters e fds =
     (case closes_fd (fst e) of
        Some fd \<Rightarrow> fds - {fd}
      | None \<Rightarrow> (case snd e of
                   Inr fd \<Rightarrow> if opens_fd alters (fst e) then insert fd fds else fds
                 | Inl _ \<Rightarrow> fds))"

abbreviation open_fds :: "(u32 \<Rightarrow> bool) \<Rightarrow> usize set \<Rightarrow> os_trace \<Rightarrow> usize set" where
  "open_fds alters l0 w \<equiv> ledger (fd_effect alters) l0 w"

text \<open>A kernel returns a descriptor that is not open.\<close>

definition fresh_fds :: "(u32 \<Rightarrow> bool) \<Rightarrow> usize set \<Rightarrow> kernel \<Rightarrow> bool" where
  "fresh_fds alters l0 k \<longleftrightarrow>
     (\<forall>w c fd. opens_fd alters c \<longrightarrow> k w c = Inr fd \<longrightarrow> fd \<notin> open_fds alters l0 w)"

lemma fresh_fdsD:
  "fresh_fds alters l0 k \<Longrightarrow> opens_fd alters c \<Longrightarrow> k w c = Inr fd \<Longrightarrow> fd \<notin> open_fds alters l0 w"
  by (simp add: fresh_fds_def)

fun keeps_fds :: "(u32 \<Rightarrow> bool) \<Rightarrow> SysCallerEnum \<Rightarrow> bool" where
  "keeps_fds alters (AcceptCall c) = False"
| "keeps_fds alters (DummyCall c) =
     (\<not> opens_fd alters (Syscall (dummy_syscall c) []) \<and> dummy_syscall c \<noteq> Sys_close)"
| "keeps_fds alters c = True"

lemma call_keeps_fds:
  assumes "fresh_fds alters l0 k" and "keeps_fds alters c"
  shows "open_fds alters l0 (snd (call_spec k c w)) = open_fds alters l0 w"
  using assms fresh_fdsD [OF assms(1), of "primary c" w]
  by (cases c) (auto simp: call_spec_def fd_effect_def Let_def split: sum.splits option.splits)

interpretation fds: payload_frame "\<lambda>(k, c). SysCaller_call k c" "fd_effect alters" l0
    "\<lambda>(k, c). fresh_fds alters l0 k \<and> keeps_fds alters c" for alters l0
  by unfold_locales (auto simp: run_SysCaller_call call_keeps_fds)

section \<open>Mappings\<close>

fun map_call :: "sysarg list \<Rightarrow> usize \<Rightarrow> (usize \<times> usize) option" where
  "map_call [a, Num len, p, f, d, off] addr = Some (addr, len)"
| "map_call _ addr = None"

fun unmap_call :: "sysarg list \<Rightarrow> (usize \<times> usize) option" where
  "unmap_call [Num addr, Num len] = Some (addr, len)"
| "unmap_call _ = None"

fun map_effect :: "os_event \<Rightarrow> (usize \<times> usize) set \<Rightarrow> (usize \<times> usize) set" where
  "map_effect (Syscall s args, Inr v) maps =
     (if s = Sys_mmap then maps \<union> set_option (map_call args v)
      else if s = Sys_munmap then maps - set_option (unmap_call args)
      else maps)"
| "map_effect _ maps = maps"

lemma map_effect_other [simp]:
  "s \<noteq> Sys_mmap \<Longrightarrow> s \<noteq> Sys_munmap \<Longrightarrow> map_effect (Syscall s args, r) maps = maps"
  by (cases r) simp_all

text \<open>
  A kernel maps at a place that is not mapped (the callers pass no fixed
  address) and unmaps what was mapped.
\<close>

definition sane_maps :: "(usize \<times> usize) set \<Rightarrow> kernel \<Rightarrow> bool" where
  "sane_maps m0 k \<longleftrightarrow>
     (\<forall>w a len p f d off addr. k w (Syscall Sys_mmap [a, Num len, p, f, d, off]) = Inr addr \<longrightarrow>
        (addr, len) \<notin> ledger map_effect m0 w) \<and>
     (\<forall>w addr len. (addr, len) \<in> ledger map_effect m0 w \<longrightarrow>
        (\<exists>r. k w (Syscall Sys_munmap [Num addr, Num len]) = Inr r))"

text \<open>The callers that are not the memory caller or an unknown call touch no mapping.\<close>

fun keeps_maps :: "SysCallerEnum \<Rightarrow> bool" where
  "keeps_maps (DummyCall c) = (dummy_syscall c \<notin> {Sys_mmap, Sys_munmap})"
| "keeps_maps (AcceptCall c) = (accept_nr c \<in> {Sys_accept, Sys_accept4})"
| "keeps_maps c = True"

lemma mmap_call_keeps_maps:
  assumes "sane_maps m0 k"
  shows "ledger map_effect m0 (snd (call_spec k (MmapCall c) w)) = ledger map_effect m0 w"
proof (cases "k w (primary (MmapCall c))")
  case (Inl e)
  then show ?thesis by (simp add: call_spec_def Let_def)
next
  case (Inr addr)
  let ?w1 = "w @ [Ev (primary (MmapCall c), Inr addr)]"
  have new: "(addr, mmap_length c) \<notin> ledger map_effect m0 w"
    using assms Inr by (auto simp: sane_maps_def)
  have "(addr, mmap_length c) \<in> ledger map_effect m0 ?w1" by simp
  then obtain r where "k ?w1 (Syscall Sys_munmap [Num addr, Num (mmap_length c)]) = Inr r"
    using assms unfolding sane_maps_def by blast
  with Inr new show ?thesis by (simp add: call_spec_def Let_def)
qed

lemma call_keeps_maps:
  assumes "sane_maps m0 k" and "keeps_maps c"
  shows "ledger map_effect m0 (snd (call_spec k c w)) = ledger map_effect m0 w"
proof (cases c)
  case (MmapCall x)
  with mmap_call_keeps_maps [OF assms(1)] show ?thesis by simp
next
  case (DummyCall x)
  with assms(2) show ?thesis
    by (cases "dummy_syscall x") (simp_all add: call_spec_def Let_def split: sum.splits)
qed (use assms(2) in \<open>auto simp: call_spec_def Let_def split: sum.splits option.splits\<close>)

interpretation maps: payload_frame "\<lambda>(k, c). SysCaller_call k c" map_effect m0
    "\<lambda>(k, c). sane_maps m0 k \<and> keeps_maps c" for m0
  by unfold_locales (auto simp: run_SysCaller_call call_keeps_maps)

text \<open>The number of descriptors the kernel handed out in a trace.\<close>

definition opened :: "(u32 \<Rightarrow> bool) \<Rightarrow> os_trace \<Rightarrow> nat" where
  "opened alters w =
     length (filter (\<lambda>e. case e of Ev (c, Inr fd) \<Rightarrow> opens_fd alters c | _ \<Rightarrow> False) w)"

lemma opened_append [simp]: "opened alters (w @ w') = opened alters w + opened alters w'"
  by (simp add: opened_def)

lemma opened_Nil [simp]: "opened alters [] = 0"
  by (simp add: opened_def)

lemma opened_quiet [simp]: "quiet es \<Longrightarrow> opened alters es = 0"
  by (induction es) (auto simp: opened_def split: entry.splits prod.splits sum.splits)

lemma opened_Ev [simp]:
  "opened alters (Ev (c, r) # w) =
     (case r of Inr fd \<Rightarrow> if opens_fd alters c then 1 else 0 | Inl _ \<Rightarrow> 0) + opened alters w"
  by (cases r) (simp_all add: opened_def)

section \<open>Initialisation and drop\<close>

text \<open>The descriptor a caller holds between its initialisation and its drop.\<close>

fun held_fds :: "SysCallerEnum \<Rightarrow> usize set" where
  "held_fds (ConnectCall c) = {connect_sockfd c}"
| "held_fds (ListenCall c) = {listen_sockfd c}"
| "held_fds (AcceptCall c) = {listen_sockfd (accept_listen_call c)}"
| "held_fds (IoctlCall c) = {ioctl_fd c}"
| "held_fds c = {}"

fun has_init :: "SysCallerEnum \<Rightarrow> bool" where
  "has_init (ConnectCall c) = True"
| "has_init (ListenCall c) = True"
| "has_init (AcceptCall c) = True"
| "has_init (IoctlCall c) = True"
| "has_init c = False"

abbreviation is_mmap :: "SysCallerEnum \<Rightarrow> bool" where
  "is_mmap c \<equiv> (\<exists>x. c = MmapCall x)"

abbreviation is_accept :: "SysCallerEnum \<Rightarrow> bool" where
  "is_accept c \<equiv> (\<exists>x. c = AcceptCall x)"

lemma card_held_fds: "card (held_fds c) \<le> 1"
  by (cases c) simp_all

lemma fd_effect_close [simp]: "fd_effect alters (Syscall Sys_close [Num fd], r) fds = fds - {fd}"
  by (simp add: fd_effect_def)

lemma fd_effect_error [simp]:
  "closes_fd c = None \<Longrightarrow> fd_effect alters (c, Inl e) fds = fds"
  by (simp add: fd_effect_def)

lemma fd_effect_open [simp]:
  "closes_fd c = None \<Longrightarrow> opens_fd alters c \<Longrightarrow> fd_effect alters (c, Inr fd) fds = insert fd fds"
  by (simp add: fd_effect_def)

lemma fd_effect_listen [simp]: "fd_effect alters (Syscall Sys_listen args, r) fds = fds"
  by (cases r) (simp_all add: fd_effect_def)

lemma drop_fds:
  assumes "\<not> is_mmap c"
  shows "open_fds alters l0 (snd (run_state (SysCaller_drop k c) w)) = open_fds alters l0 w - held_fds c"
  using assms by (cases c) (simp_all add: caller_drop_defs)

text \<open>The memory caller closes the descriptor of its configuration when it is dropped.\<close>

fun mmap_fds :: "SysCallerEnum \<Rightarrow> usize set" where
  "mmap_fds (MmapCall c) = {mmap_fd c}"
| "mmap_fds c = {}"

lemma drop_fds_all:
  "open_fds alters l0 (snd (run_state (SysCaller_drop k c) w)) = open_fds alters l0 w - held_fds c - mmap_fds c"
  using drop_fds [of c] by (cases c) (simp_all add: caller_drop_defs)

lemma drop_opened [simp]: "opened alters (snd (run_state (SysCaller_drop k c) w)) = opened alters w"
  by (cases c) (auto simp: caller_drop_defs split: sum.splits)

lemma init_ok_fds:
  assumes "fresh_fds alters l0 k" and "run_state (SysCaller_init k c) w = ((Inr v, c'), w')"
  shows "open_fds alters l0 w' = open_fds alters l0 w \<union> held_fds c'" (is ?A)
    and "held_fds c' \<inter> open_fds alters l0 w = {}" (is ?B)
proof -
  have fresh: "fd \<notin> open_fds alters l0 w" if "k w x = Inr fd" "opens_fd alters x" for x fd
    using fresh_fdsD [OF assms(1) that(2,1)] .
  show ?A
    using assms(2) by (cases c) (auto simp: caller_init_defs caller_call_defs split: sum.splits)
  show ?B
    using assms(2)
    by (cases c) (auto simp: caller_init_defs caller_call_defs split: sum.splits dest: fresh)
qed

text \<open>Initialisation changes only the descriptors inside the caller.\<close>

lemma init_same_kind:
  assumes "run_state (SysCaller_init k c) w = ((r, c'), w')"
  shows "keeps_fds alters c' \<longleftrightarrow> keeps_fds alters c" "keeps_maps c' \<longleftrightarrow> keeps_maps c"
    "is_mmap c' \<longleftrightarrow> is_mmap c" "is_accept c' \<longleftrightarrow> is_accept c"
  using assms
  by (cases c; auto simp: caller_init_defs caller_call_defs split: sum.splits)+

lemma init_mmap_fds: "run_state (SysCaller_init k c) w = ((r, c'), w') \<Longrightarrow> mmap_fds c' = mmap_fds c"
  by (cases c) (auto simp: caller_init_defs split: sum.splits prod.splits)

lemma init_error_has_init:
  "run_state (SysCaller_init k c) w = ((Inl e, c'), w') \<Longrightarrow> has_init c"
  by (cases c) auto

lemma init_error_fds:
  assumes "run_state (SysCaller_init k c) w = ((Inl e, c'), w')" and "\<not> is_accept c"
  shows "open_fds alters l0 w' = open_fds alters l0 w" "c' = c"
  using assms by (cases c; auto simp: caller_init_defs split: sum.splits)+

text \<open>
  A failed initialisation opened nothing, and the caller still has the descriptor
  field it was created with, or it opened the descriptor that is now in the field
  (a listening socket that could not listen).
\<close>

lemma init_error_opened:
  assumes "run_state (SysCaller_init k c) w = ((Inl e, c'), w')" and "fresh_fds alters l0 k"
  shows "(opened alters w' = opened alters w \<and> open_fds alters l0 w' = open_fds alters l0 w \<and> held_fds c' = held_fds c) \<or>
         (opened alters w' = Suc (opened alters w) \<and>
            open_fds alters l0 w' - held_fds c' = open_fds alters l0 w)"
proof -
  have fresh: "fd \<notin> open_fds alters l0 w" if "k w x = Inr fd" "opens_fd alters x" for x fd
    using fresh_fdsD [OF assms(2) that(2,1)] .
  show ?thesis
    using assms(1)
    by (cases c) (auto simp: caller_init_defs caller_call_defs split: sum.splits dest: fresh)
qed

lemma init_events:
  "\<exists>es. snd (run_state (SysCaller_init k c) w) = w @ map Ev es"
  by (cases c) (auto simp: caller_init_defs caller_call_defs split: sum.splits
      intro: exI [of _ "[]"] exI [of _ "[a]" for a] exI [of _ "[a, b]" for a b])

lemma init_maps: "ledger map_effect m0 (snd (run_state (SysCaller_init k c) w)) = ledger map_effect m0 w"
  by (cases c) (auto simp: caller_init_defs caller_call_defs split: sum.splits)

lemma drop_maps: "ledger map_effect m0 (snd (run_state (SysCaller_drop k c) w)) = ledger map_effect m0 w"
  by (cases c) (auto simp: caller_drop_defs)

lemma new_not_accept: "s \<notin> {Sys_accept, Sys_accept4} \<Longrightarrow> \<not> is_accept (SysCallerEnum_new s args)"
  by (cases s) auto

lemma new_keeps_maps: "s \<noteq> Sys_munmap \<Longrightarrow> keeps_maps (SysCallerEnum_new s args)"
  by (cases s) (auto simp: DummyCall_new_def AcceptCall_new_def)

lemma new_held_0: "has_init (SysCallerEnum_new s args) \<Longrightarrow> held_fds (SysCallerEnum_new s args) = {0}"
  by (cases s) (auto simp: caller_new_defs)

lemma init_requested:
  assumes "run_state (SysCaller_init k c) w = ((r, c'), w')"
  shows "requested (primary c') = requested (primary c)"
  using assms by (cases c) (auto simp: caller_init_defs caller_call_defs split: sum.splits)

lemma new_requested: "requested (primary (SysCallerEnum_new s args)) = Some s"
  by (cases s) (simp_all add: DummyCall_new_def AcceptCall_new_def)

section \<open>The ways \<open>run_payload\<close> can end\<close>

lemma run_payload_cases [consumes 3, case_names init_error rate_refused loop_panic running]:
  assumes "workload (sw_workload self) = Syscalls rate tight nr args" and "sysno_from nr = Inr s"
    and "run_state (SyscallsWorker_run_payload sysno_from exp_ok k oc self t0 tks) w = (out, w')"
  obtains
    e c w1 where "run_state (SysCaller_init k (SysCallerEnum_new s args)) w = ((Inl e, c), w1)"
      "out = Failed Internal" "w' = snd (run_state (SysCaller_drop k c) w1)"
  | v c w1 where "run_state (SysCaller_init k (SysCallerEnum_new s args)) w = ((Inr v, c), w1)"
      "out = Panicked Unwrap_Err" "w' = snd (run_state (SysCaller_drop k c) w1)"
  | v c w1 p w2 where "run_state (SysCaller_init k (SysCallerEnum_new s args)) w = ((Inr v, c), w1)"
      "run_state (payload_run oc tight (SysCaller_call k c) tks \<lparr>counter = 0, start = t0\<rparr>) w1 = (Inl p, w2)"
      "out = Panicked p" "w' = snd (run_state (SysCaller_drop k c) w2)"
  | v c w1 st where "run_state (SysCaller_init k (SysCallerEnum_new s args)) w = ((Inr v, c), w1)"
      "run_state (payload_run oc tight (SysCaller_call k c) tks \<lparr>counter = 0, start = t0\<rparr>) w1 = (Inr st, w')"
      "out = Running st"
proof -
  obtain r c w1 where i: "run_state (SysCaller_init k (SysCallerEnum_new s args)) w = ((r, c), w1)"
    by (metis prod.collapse)
  obtain x w2 where l: "run_state (payload_run oc tight (SysCaller_call k c) tks
      \<lparr>counter = 0, start = t0\<rparr>) w1 = (x, w2)" by (metis prod.collapse)
  show ?thesis
    using that assms i l
    by (cases r; cases x; cases "exp_ok rate")
       (auto simp: SyscallsWorker_run_payload_def syscalls_loop_def drop_and_def exp_new_def
         split: prod.splits)
qed

lemma syscalls_run_fds:
  assumes "fresh_fds alters l0 k" and "keeps_fds alters c"
  shows "open_fds alters l0 (snd (run_state (payload_run oc tight (SysCaller_call k c) tks st) w)) =
           open_fds alters l0 w"
  using fds.run_keeps [of alters l0 "(k, c)" oc tight tks st w] assms by simp

lemma syscalls_run_maps:
  assumes "sane_maps m0 k" and "keeps_maps c"
  shows "ledger map_effect m0 (snd (run_state (payload_run oc tight (SysCaller_call k c) tks st) w)) =
           ledger map_effect m0 w"
  using maps.run_keeps [of m0 "(k, c)" oc tight tks st w] assms by simp

text \<open>A successful initialisation is followed by one block of the trace per tick.\<close>

lemma worker_runs:
  assumes "workload (sw_workload self) = Syscalls rate tight nr args" and "sysno_from nr = Inr s"
    and "exp_ok rate" and "run_state (SysCaller_init k (SysCallerEnum_new s args)) w = ((Inr v, c), w1)"
    and "list_all clock_ok tks" and "length tks < 2 ^ 64"
  shows "\<exists>st bs. run_state (SyscallsWorker_run_payload sysno_from exp_ok k oc self t0 tks) w =
             (Running st, w1 @ concat bs) \<and>
           list_all2 (loop_block (one_request s) tight) tks bs \<and> unat (counter st) \<le> length tks"
proof -
  have "requested (primary c) = Some s" using init_requested [OF assms(4)] new_requested by simp
  with caller.run_blocks [OF assms(5), of "\<lparr>counter = 0, start = t0\<rparr>" oc tight "(k, c)" w1] assms(6)
  obtain st bs where "run_state (payload_run oc tight (SysCaller_call k c) tks \<lparr>counter = 0, start = t0\<rparr>)
      w1 = (Inr st, w1 @ concat bs)" "list_all2 (loop_block (one_request s) tight) tks bs"
    "unat (counter st) \<le> length tks" by auto
  with assms(1-4) show ?thesis
    by (intro exI [of _ st] exI [of _ bs])
       (simp add: SyscallsWorker_run_payload_def syscalls_loop_def exp_new_def)
qed

section \<open>Kernels to run the worker on\<close>

text \<open>One descriptor at a time, number 3; memory at one address; nothing else.\<close>

definition small_kernel :: kernel where
  "small_kernel w c =
     (if opens_fd (\<lambda>_. False) c
      then if 3 \<in> open_fds (\<lambda>_. False) {0, 1, 2} w then Inl 24 else Inr 3
      else case c of
        Syscall Sys_mmap args \<Rightarrow>
          if ledger map_effect {} w = {} \<and> map_call args 4096 \<noteq> None then Inr 4096 else Inl 12
      | _ \<Rightarrow> Inr 0)"

lemma small_kernel_fresh: "fresh_fds (\<lambda>_. False) {0, 1, 2} small_kernel"
  by (auto simp: fresh_fds_def small_kernel_def split: if_splits)

lemma small_kernel_sane: "sane_maps {} small_kernel"
  by (auto simp: sane_maps_def small_kernel_def split: if_splits)

text \<open>A kernel that refuses everything.\<close>

definition deaf_kernel :: kernel where
  "deaf_kernel w c = Inl 24"

lemma deaf_kernel_fresh: "fresh_fds alters l0 deaf_kernel"
  by (simp add: fresh_fds_def deaf_kernel_def)

abbreviation demo_worker :: "u32 \<Rightarrow> args_map \<Rightarrow> SyscallsWorker" where
  "demo_worker nr args \<equiv> SyscallsWorker_new \<lparr>restart_interval = 10, per_core = False, workers = 1,
     workload = Syscalls (Fin 1) False nr args, duration = 0\<rparr> 0 0"

abbreviation demo_tick :: loop_tick where
  "demo_tick \<equiv> \<lparr>at_check = 5, at_rate = 6, at_restart = 7, drawn = Fin 2\<rparr>"

lemma demo_worker_runs:
  assumes "fst (fst (run_state (SysCaller_init k (SysCallerEnum_new s args)) [])) = Inr v"
  shows "\<exists>st w'. run_state (SyscallsWorker_run_payload (\<lambda>_. Inr s) (\<lambda>_. True) k oc
             (demo_worker nr args) 0 [demo_tick]) [] = (Running st, w')"
proof -
  obtain c w1 where "run_state (SysCaller_init k (SysCallerEnum_new s args)) [] = ((Inr v, c), w1)"
    using assms by (metis prod.collapse)
  from worker_runs [OF _ _ _ this, of "demo_worker nr args" "Fin 1" False nr "\<lambda>_. Inr s" "\<lambda>_. True" "[demo_tick]" oc 0]
  show ?thesis by (auto simp: SyscallsWorker_new_def clock_ok_def)
qed

section \<open>Properties\<close>

text \<open>
  The abstract worker behind all callers: its resources are the open descriptors
  and the mappings, and a call leaves them alone, except that a successful
  accept keeps the descriptor it returned.
\<close>

definition resources ::
    "(u32 \<Rightarrow> bool) \<Rightarrow> usize set \<Rightarrow> (usize \<times> usize) set \<Rightarrow> os_trace \<Rightarrow> usize set \<times> (usize \<times> usize) set" where
  "resources alters l0 m0 w = (open_fds alters l0 w, ledger map_effect m0 w)"

fun abstract_call :: "Sysno \<Rightarrow> answer \<Rightarrow> usize set \<times> 'm \<Rightarrow> usize set \<times> 'm" where
  "abstract_call s (Inr fd) (fds, maps) = (if s \<in> {Sys_accept, Sys_accept4} then insert fd fds else fds, maps)"
| "abstract_call s (Inl e) r = r"

lemma accept_call_fds:
  assumes "accept_nr c \<in> {Sys_accept, Sys_accept4}"
  shows "open_fds alters l0 (snd (call_spec k (AcceptCall c) w)) =
           (case fst (call_spec k (AcceptCall c) w) of
              Inr fd \<Rightarrow> insert fd (open_fds alters l0 w) | Inl e \<Rightarrow> open_fds alters l0 w)"
  using assms by (auto simp: call_spec_def fd_effect_def Let_def split: sum.splits)

text \<open>What the initialised caller of a number is.\<close>

lemma initialised_caller:
  assumes "run_state (SysCaller_init k (SysCallerEnum_new s args)) w = ((r, c), w')"
    and "s \<notin> {Sys_close, Sys_munmap}" and "\<And>n. s = Sys_other n \<Longrightarrow> \<not> alters n"
  shows "keeps_maps c"
    and "if s \<in> {Sys_accept, Sys_accept4} then \<exists>a. c = AcceptCall a \<and> accept_nr a = s else keeps_fds alters c"
proof -
  show "keeps_maps c" using init_same_kind(2) [OF assms(1)] new_keeps_maps assms(2) by blast
  have "requested (primary c) = Some s" using init_requested [OF assms(1)] new_requested by simp
  moreover have "is_accept c \<longleftrightarrow> s \<in> {Sys_accept, Sys_accept4}"
    using init_same_kind(4) [OF assms(1)] by (cases s) auto
  moreover have "keeps_fds alters (SysCallerEnum_new s args)" if "s \<notin> {Sys_accept, Sys_accept4}"
    using that assms(2,3) by (cases s) (auto simp: DummyCall_new_def)
  ultimately show "if s \<in> {Sys_accept, Sys_accept4} then \<exists>a. c = AcceptCall a \<and> accept_nr a = s
      else keeps_fds alters c"
    using init_same_kind(1) [OF assms(1), of alters] by auto
qed

text \<open>
  C9: the calls refine the abstract worker: on a kernel that hands out unused
  descriptors and addresses and unmaps what is mapped, the caller of every number
  takes the resources through a call as the abstract worker does, whatever the
  kernel answers: what a call opens or maps it gives back before it returns,
  and only accepted connections stay. Left out are \<open>close\<close>, \<open>munmap\<close> and the
  numbers without a caller of their own that change the descriptor table.
\<close>

theorem calls_refine_abstract_worker:
  assumes "fresh_fds alters l0 k" and "sane_maps m0 k"
    and "s \<notin> {Sys_close, Sys_munmap}" and "\<And>n. s = Sys_other n \<Longrightarrow> \<not> alters n"
    and "run_state (SysCaller_init k (SysCallerEnum_new s args)) w0 = ((r, c), w1)"
    and "run_state (SysCaller_call k c) w = (res, w')"
  shows "resources alters l0 m0 w' = abstract_call s res (resources alters l0 m0 w)"
proof -
  note c = initialised_caller [OF assms(5,3,4)]
  have w': "w' = snd (call_spec k c w)" "res = fst (call_spec k c w)"
    using assms(6) by (simp_all add: run_SysCaller_call)
  have maps: "ledger map_effect m0 w' = ledger map_effect m0 w"
    unfolding w' by (rule call_keeps_maps [OF assms(2) c(1)])
  show ?thesis
  proof (cases "s \<in> {Sys_accept, Sys_accept4}")
    case True
    with c(2) obtain a where "c = AcceptCall a" "accept_nr a = s" by auto
    with True accept_call_fds [of a alters l0 k w] maps show ?thesis
      by (cases res) (auto simp: resources_def w')
  next
    case False
    with c(2) call_keeps_fds [OF assms(1)] maps show ?thesis
      by (cases res) (auto simp: resources_def w')
  qed
qed

theorem calls_refine_abstract_worker_witness:
  "resources (\<lambda>_. False) {0, 1, 2} {} (snd (run_state (SysCaller_call small_kernel
       (MmapCall (MmapCall_new Map.empty))) [])) = ({0, 1, 2}, {})"
proof -
  obtain res w' where r: "run_state (SysCaller_call small_kernel (MmapCall (MmapCall_new Map.empty))) [] = (res, w')"
    by (metis prod.collapse)
  have "run_state (SysCaller_init small_kernel (SysCallerEnum_new Sys_mmap Map.empty)) [] =
      ((Inr 0, MmapCall (MmapCall_new Map.empty)), [])" by simp
  from calls_refine_abstract_worker [OF small_kernel_fresh small_kernel_sane _ _ this r] show ?thesis
    unfolding r by (cases res) (simp_all add: resources_def)
qed

text \<open>
  C10: whatever number is configured and whatever the kernel answers, the first
  thing a call does after the initialisation is the system call of that number.
\<close>

theorem dispatch_calls_requested:
  "\<exists>ev r rest. requested ev = Some s \<and>
     snd (run_state (SysCaller_call k
       (snd (fst (run_state (SysCaller_init k (SysCallerEnum_new s args)) w)))) w') = w' @ Ev (ev, r) # rest"
proof -
  obtain r c w1 where i: "run_state (SysCaller_init k (SysCallerEnum_new s args)) w = ((r, c), w1)"
    by (metis prod.collapse)
  then have "requested (primary c) = Some s"
    using init_requested [OF i] new_requested by simp
  then show ?thesis
    by (intro exI [of _ "primary c"] exI [of _ "k w' (primary c)"])
       (auto simp: i run_SysCaller_call call_spec_def Let_def split: sum.splits option.splits)
qed

text \<open>
  C3: as long as the worker runs it holds at most the one descriptor its
  initialisation opened, however many calls it made: every descriptor a call
  opens is closed before the next one. This is for all calls but the accepting
  ones and the calls by number that change the descriptor table.
\<close>

theorem running_worker_holds_one_fd:
  assumes "fresh_fds alters l0 k"
    and "workload (sw_workload self) = Syscalls rate tight nr args" and "sysno_from nr = Inr s"
    and "keeps_fds alters (SysCallerEnum_new s args)"
    and "run_state (SyscallsWorker_run_payload sysno_from exp_ok k oc self t0 tks) w = (Running st, w')"
  shows "\<exists>held. open_fds alters l0 w' = open_fds alters l0 w \<union> held \<and>
           held \<inter> open_fds alters l0 w = {} \<and> card held \<le> 1"
  using assms(2,3,5)
proof (cases rule: run_payload_cases)
  case (running v c w1 st')
  have "keeps_fds alters c" using init_same_kind(1) [OF running(1)] assms(4) by blast
  from syscalls_run_fds [OF assms(1) this] running(2)
  have "open_fds alters l0 w' = open_fds alters l0 w1" by (metis snd_conv)
  with init_ok_fds [OF assms(1) running(1)] card_held_fds [of c] show ?thesis by auto
qed auto

theorem running_worker_holds_one_fd_witness:
  "\<exists>st w' held. run_state (SyscallsWorker_run_payload (\<lambda>_. Inr Sys_connect) (\<lambda>_. True) small_kernel True
      (demo_worker 42 Map.empty) 0 [demo_tick]) [] = (Running st, w') \<and>
    open_fds (\<lambda>_. False) {0, 1, 2} w' = {0, 1, 2} \<union> held \<and> held \<inter> {0, 1, 2} = {} \<and> card held \<le> 1"
proof -
  have "fst (fst (run_state (SysCaller_init small_kernel (SysCallerEnum_new Sys_connect Map.empty)) [])) = Inr 3"
    by (simp add: caller_init_defs small_kernel_def)
  from demo_worker_runs [OF this] obtain st w' where
    r: "run_state (SyscallsWorker_run_payload (\<lambda>_. Inr Sys_connect) (\<lambda>_. True) small_kernel True
      (demo_worker 42 Map.empty) 0 [demo_tick]) [] = (Running st, w')" by blast
  from running_worker_holds_one_fd [OF small_kernel_fresh _ _ _ r] show ?thesis
    using r by (auto simp: SyscallsWorker_new_def)
qed

text \<open>
  C25: a panic of the worker after a successful initialisation drops the caller
  and leaves the open descriptors as they were before the worker started, except
  that the memory caller closes the descriptor of its configuration. This is for
  all numbers but the accepting ones, which keep what they accepted, and those
  that change the descriptor table without a caller of their own.
\<close>

theorem panic_restores_fds:
  assumes "fresh_fds alters l0 k"
    and "workload (sw_workload self) = Syscalls rate tight nr args" and "sysno_from nr = Inr s"
    and "keeps_fds alters (SysCallerEnum_new s args)"
    and "run_state (SyscallsWorker_run_payload sysno_from exp_ok k oc self t0 tks) w = (Panicked p, w')"
  shows "open_fds alters l0 w' = open_fds alters l0 w - mmap_fds (SysCallerEnum_new s args)"
proof -
  have drop: "open_fds alters l0 (snd (run_state (SysCaller_drop k c) w2)) =
      open_fds alters l0 w - mmap_fds (SysCallerEnum_new s args)"
    if "run_state (SysCaller_init k (SysCallerEnum_new s args)) w = ((Inr v, c), w1)"
      and "open_fds alters l0 w2 = open_fds alters l0 w1" for v c w1 w2
    using drop_fds_all [of alters l0 k c w2] init_ok_fds [OF assms(1) that(1)] init_mmap_fds [OF that(1)] that(2)
    by auto
  show ?thesis using assms(2,3,5)
  proof (cases rule: run_payload_cases)
    case (rate_refused v c w1)
    with drop [OF rate_refused(1) refl] show ?thesis by simp
  next
    case (loop_panic v c w1 p' w2)
    have "keeps_fds alters c" using init_same_kind(1) [OF loop_panic(1)] assms(4) by blast
    from syscalls_run_fds [OF assms(1) this] loop_panic(2)
    have "open_fds alters l0 w2 = open_fds alters l0 w1" by (metis snd_conv)
    with drop [OF loop_panic(1)] loop_panic(4) show ?thesis by simp
  qed auto
qed

theorem panic_restores_fds_witness:
  "\<exists>w'. run_state (SyscallsWorker_run_payload (\<lambda>_. Inr Sys_listen) (\<lambda>_. False) small_kernel True
      (demo_worker 50 Map.empty) 0 []) [] = (Panicked Unwrap_Err, w') \<and>
    open_fds (\<lambda>_. False) {0, 1, 2} w' = {0, 1, 2}"
proof -
  obtain w' where
    r: "run_state (SyscallsWorker_run_payload (\<lambda>_. Inr Sys_listen) (\<lambda>_. False) small_kernel True
      (demo_worker 50 Map.empty) 0 []) [] = (Panicked Unwrap_Err, w')"
    by (simp add: SyscallsWorker_run_payload_def SyscallsWorker_new_def caller_defs small_kernel_def
        exp_new_def drop_and_def)
  from panic_restores_fds [OF small_kernel_fresh _ _ _ r] show ?thesis
    using r by (auto simp: SyscallsWorker_new_def)
qed

text \<open>
  C26: when the initialisation of the worker fails, it returns an internal error.
  If no socket could be opened, dropping the caller, whose descriptor field still
  has its initial value, closes descriptor 0, the standard input of the process.
  Only when a socket was opened, by an accepting worker that could not listen on
  it, is that socket closed and the descriptors are as they were.
\<close>

theorem failed_init_closes_stdin:
  assumes "fresh_fds alters l0 k"
    and "workload (sw_workload self) = Syscalls rate tight nr args" and "sysno_from nr = Inr s"
    and "run_state (SyscallsWorker_run_payload sysno_from exp_ok k oc self t0 tks) w = (Failed e, w')"
  shows "e = Internal \<and> open_fds alters l0 w' =
           (if opened alters w' = opened alters w then open_fds alters l0 w - {0} else open_fds alters l0 w)"
  using assms(2-4)
proof (cases rule: run_payload_cases)
  case (init_error e' c w1)
  have h: "has_init (SysCallerEnum_new s args)" by (rule init_error_has_init [OF init_error(1)])
  then have "held_fds (SysCallerEnum_new s args) = {0}" "mmap_fds c = {}"
    using new_held_0 init_mmap_fds [OF init_error(1)] by (simp, cases "SysCallerEnum_new s args") simp_all
  with init_error_opened [OF init_error(1) assms(1)] drop_fds_all [of alters l0 k c w1] init_error(2,3)
  show ?thesis by auto
qed auto

theorem failed_init_closes_stdin_witness:
  "\<exists>w'. run_state (SyscallsWorker_run_payload (\<lambda>_. Inr Sys_connect) (\<lambda>_. True) deaf_kernel True
      (demo_worker 42 Map.empty) 0 []) [] = (Failed Internal, w') \<and>
    open_fds (\<lambda>_. False) {0, 1, 2} w' = {0, 1, 2} - {0}"
proof -
  obtain w' where
    r: "run_state (SyscallsWorker_run_payload (\<lambda>_. Inr Sys_connect) (\<lambda>_. True) deaf_kernel True
      (demo_worker 42 Map.empty) 0 []) [] = (Failed Internal, w')" and o: "opened (\<lambda>_. False) w' = 0"
    by (simp add: SyscallsWorker_run_payload_def SyscallsWorker_new_def caller_defs deaf_kernel_def
        drop_and_def)
  from failed_init_closes_stdin [OF deaf_kernel_fresh [of "\<lambda>_. False" "{0, 1, 2}"] _ _ r] r o show ?thesis
    by (auto simp: SyscallsWorker_new_def)
qed

text \<open>
  C28: the worker leaves no memory mapped, whatever its outcome, on a kernel that
  maps at unused places and unmaps what is mapped.
\<close>

theorem worker_keeps_mappings:
  assumes "sane_maps m0 k"
    and "workload (sw_workload self) = Syscalls rate tight nr args" and "sysno_from nr = Inr s"
    and "s \<noteq> Sys_munmap"
    and "run_state (SyscallsWorker_run_payload sysno_from exp_ok k oc self t0 tks) w = (out, w')"
  shows "ledger map_effect m0 w' = ledger map_effect m0 w"
proof -
  have same: "ledger map_effect m0 w1 = ledger map_effect m0 w"
    if "run_state (SysCaller_init k (SysCallerEnum_new s args)) w = (x, w1)" for x w1
    using that init_maps [of m0 k "SysCallerEnum_new s args" w] by simp
  have run: "ledger map_effect m0 w2 = ledger map_effect m0 w1"
    if "run_state (SysCaller_init k (SysCallerEnum_new s args)) w = ((r, c), w1)"
      and "run_state (payload_run oc tight (SysCaller_call k c) tks st) w1 = (y, w2)" for r c w1 st y w2
    using that syscalls_run_maps [OF assms(1), of c] init_same_kind(2) [OF that(1)]
      new_keeps_maps [OF assms(4)] by (metis snd_conv)
  show ?thesis using assms(2,3,5)
    by (cases rule: run_payload_cases) (metis drop_maps same run)+
qed

theorem worker_keeps_mappings_witness:
  "ledger map_effect {} (snd (run_state (SyscallsWorker_run_payload (\<lambda>_. Inr Sys_mmap) (\<lambda>_. True)
      small_kernel True (demo_worker 9 Map.empty) 0 [demo_tick]) [])) = {}"
  using worker_keeps_mappings [OF small_kernel_sane, of "demo_worker 9 Map.empty" "Fin 1" False 9 Map.empty
      "\<lambda>_. Inr Sys_mmap" Sys_mmap "\<lambda>_. True" True 0 "[demo_tick]" "[]"]
  by (simp add: SyscallsWorker_new_def prod_eq_iff)

definition accepts_leak ::
    "(u32 \<Rightarrow> bool) \<Rightarrow> usize set \<Rightarrow> nat \<Rightarrow> nat \<Rightarrow> kernel \<times> AcceptCall \<Rightarrow> os_trace \<Rightarrow> bool" where
  "accepts_leak alters l0 a b kc w \<longleftrightarrow>
     fresh_fds alters l0 (fst kc) \<and> accept_nr (snd kc) \<in> {Sys_accept, Sys_accept4} \<and>
     finite (open_fds alters l0 w) \<and> card (open_fds alters l0 w) + a = opened alters w + b"

lemma accept_call_leaks:
  assumes "accepts_leak alters l0 a b (k, c) w"
  shows "accepts_leak alters l0 a b (k, c) (w @ [Ev (primary (AcceptCall c), k w (primary (AcceptCall c)))])"
proof (cases "k w (primary (AcceptCall c))")
  case (Inl e)
  with assms show ?thesis by (auto simp: accepts_leak_def)
next
  case (Inr fd)
  moreover have "opens_fd alters (primary (AcceptCall c))" using assms by (auto simp: accepts_leak_def)
  moreover from this have "fd \<notin> open_fds alters l0 w"
    using fresh_fdsD Inr assms by (auto simp: accepts_leak_def simp del: opens_fd.simps)
  ultimately show ?thesis using assms by (auto simp: accepts_leak_def)
qed

interpretation accepts: payload_inv "\<lambda>(k, c). AcceptCall_call k c" "accepts_leak alters l0 a b" for alters l0 a b
proof
  fix kc :: "kernel \<times> AcceptCall" and w
  assume "accepts_leak alters l0 a b kc w"
  then show "accepts_leak alters l0 a b kc (snd (run_state (case kc of (k, c) \<Rightarrow> AcceptCall_call k c) w))"
    using accept_call_leaks by (cases kc) (simp add: AcceptCall_call_def)
next
  fix kc :: "kernel \<times> AcceptCall" and w es :: os_trace
  assume "accepts_leak alters l0 a b kc w" "quiet es"
  then show "accepts_leak alters l0 a b kc (w @ es)" by (simp add: accepts_leak_def)
qed

lemma accept_init_counts:
  assumes "fresh_fds alters l0 k" and "finite (open_fds alters l0 w)"
    and "run_state (SysCaller_init k (AcceptCall c)) w = ((Inr v, c'), w')"
  shows "finite (open_fds alters l0 w')"
    "card (open_fds alters l0 w') + opened alters w = card (open_fds alters l0 w) + opened alters w'"
proof -
  have "opened alters w' = Suc (opened alters w)"
    using assms(3) by (auto simp: caller_init_defs caller_call_defs split: sum.splits)
  moreover have "\<exists>fd. held_fds c' = {fd}"
    using init_same_kind(4) [OF assms(3)] by auto
  ultimately show "finite (open_fds alters l0 w')"
    "card (open_fds alters l0 w') + opened alters w = card (open_fds alters l0 w) + opened alters w'"
    using init_ok_fds [OF assms(1,3)] assms(2) by auto
qed

lemma accept_run_counts:
  assumes "fresh_fds alters l0 k" and "accept_nr c \<in> {Sys_accept, Sys_accept4}"
    and "finite (open_fds alters l0 w)"
    and "run_state (payload_run oc tight (SysCaller_call k (AcceptCall c)) tks st) w = (r, w')"
  shows "card (open_fds alters l0 w') + opened alters w = card (open_fds alters l0 w) + opened alters w'"
proof -
  have "accepts_leak alters l0 (opened alters w) (card (open_fds alters l0 w)) (k, c) w"
    using assms(1-3) by (simp add: accepts_leak_def)
  from accepts.run_inv [OF this, of oc tight tks st] assms(4) show ?thesis
    by (simp add: accepts_leak_def)
qed

text \<open>
  C27: every connection the accepting worker takes stays open: the number of open
  descriptors grows by one with each successful accept, without bound.
\<close>

theorem accepted_connections_stay_open:
  assumes "fresh_fds alters l0 k" and "finite (open_fds alters l0 w)"
    and "workload (sw_workload self) = Syscalls rate tight nr args" and "sysno_from nr = Inr s"
    and "s = Sys_accept \<or> s = Sys_accept4"
    and "run_state (SyscallsWorker_run_payload sysno_from exp_ok k oc self t0 tks) w = (Running st, w')"
  shows "card (open_fds alters l0 w') + opened alters w = card (open_fds alters l0 w) + opened alters w'"
  using assms(3,4,6)
proof (cases rule: run_payload_cases)
  case (running v c w1 st')
  from assms(5) obtain a where a: "SysCallerEnum_new s args = AcceptCall a" "accept_nr a = s"
    by (auto simp: AcceptCall_new_def)
  with running(1) obtain a' where a': "c = AcceptCall a'" "accept_nr a' = s"
    by (auto simp: caller_init_defs caller_call_defs split: sum.splits)
  from accept_init_counts [OF assms(1,2) running(1) [unfolded a(1)]]
    accept_run_counts [OF assms(1) _ _ running(2) [unfolded a'(1)]] a'(2) assms(5)
  show ?thesis by auto
qed auto

theorem accepted_connections_stay_open_witness:
  "\<exists>st w'. run_state (SyscallsWorker_run_payload (\<lambda>_. Inr Sys_accept) (\<lambda>_. True) small_kernel True
      (demo_worker 43 Map.empty) 0 [demo_tick]) [] = (Running st, w') \<and>
    card (open_fds (\<lambda>_. False) {0, 1, 2} w') = 3 + opened (\<lambda>_. False) w'"
proof -
  have "fst (fst (run_state (SysCaller_init small_kernel (SysCallerEnum_new Sys_accept Map.empty)) [])) = Inr 3"
    by (simp add: caller_init_defs caller_call_defs small_kernel_def)
  from demo_worker_runs [OF this] obtain st w' where
    r: "run_state (SyscallsWorker_run_payload (\<lambda>_. Inr Sys_accept) (\<lambda>_. True) small_kernel True
      (demo_worker 43 Map.empty) 0 [demo_tick]) [] = (Running st, w')" by blast
  from accepted_connections_stay_open [OF small_kernel_fresh _ _ _ _ r, of "Fin 1" False 43 Map.empty Sys_accept]
  have "card (open_fds (\<lambda>_. False) {0, 1, 2} w') = 3 + opened (\<lambda>_. False) w'"
    by (simp add: SyscallsWorker_new_def)
  with r show ?thesis by blast
qed

text \<open>
  C16: after a successful initialisation the worker runs on: with a clock that
  does not run backwards, no panic and no error ends the loop. Each iteration
  makes exactly one system call of the configured number, as the first of at most
  two, and then, unless the loop is tight, one sleep of the drawn interval in
  millionths of the sampled unit, with at most a report before it.
\<close>

theorem worker_runs_on:
  assumes "workload (sw_workload self) = Syscalls rate tight nr args" and "sysno_from nr = Inr s"
    and "exp_ok rate" and "run_state (SysCaller_init k (SysCallerEnum_new s args)) w = ((Inr v, c), w1)"
    and "list_all clock_ok tks" and "length tks < 2 ^ 64"
  shows "\<exists>st bs. run_state (SyscallsWorker_run_payload sysno_from exp_ok k oc self t0 tks) w =
             (Running st, w1 @ concat bs) \<and>
           list_all2 (loop_block (one_request s) tight) tks bs \<and> unat (counter st) \<le> length tks"
  using assms by (rule worker_runs)

theorem worker_runs_on_witness:
  "\<exists>st bs. run_state (SyscallsWorker_run_payload (\<lambda>_. Inr Sys_socket) (\<lambda>_. True) small_kernel True
      (demo_worker 41 Map.empty) 0 [demo_tick, demo_tick]) [] = (Running st, [] @ concat bs) \<and>
    list_all2 (loop_block (one_request Sys_socket) False) [demo_tick, demo_tick] bs \<and>
    unat (counter st) \<le> length [demo_tick, demo_tick]"
  by (rule worker_runs_on [where rate = "Fin 1" and nr = 41 and args = Map.empty and v = 0
      and c = "SysCallerEnum_new Sys_socket Map.empty"])
     (simp_all add: SyscallsWorker_new_def clock_ok_def)

text \<open>
  With the default configuration (arrival rate 0, not a tight loop) the
  exponential distribution draws infinity; the worker then makes a single
  \<open>getpid\<close> call and sleeps \<open>2 ^ 64 - 1\<close> nanoseconds, over five hundred years.
\<close>

lemma default_worker_calls_once:
  assumes "sysno_from 39 = Inr (Sys_other 39)" and "exp_ok (Fin 0)" and "drawn tk = Infinity False"
    and "clock_ok tk" and "at_check tk \<le> t0 + 10000000000"
    and "workload cfg = Syscalls (Fin 0) False 39 Map.empty"
  shows "snd (run_state (SyscallsWorker_run_payload sysno_from exp_ok k oc
             (SyscallsWorker_new cfg c p) t0 [tk]) w) =
           w @ [Ev (Syscall (Sys_other 39) [], k w (Syscall (Sys_other 39) [])), Slept (- 1)]"
proof -
  let ?st = "\<lparr>counter = 0, start = t0\<rparr> :: loop_state"
  have "\<not> 10 < elapsed_secs (at_check tk) t0" using assms(5) by (simp add: elapsed_secs_def)
  then have "report_entries tk ?st = ([] :: os_trace)" by (simp add: report_entries_def)
  moreover have "loop_delay tk = - 1"
    by (simp add: loop_delay_def assms(3) scaled_def)
  ultimately show ?thesis
    using assms run_payload_step [OF assms(4), of ?st oc False "sys k (Syscall (Sys_other 39) [])" w]
    by (simp add: SyscallsWorker_run_payload_def SyscallsWorker_new_def syscalls_loop_def exp_new_def
        run_try_res DummyCall_new_def DummyCall_call_def)
qed

lemma default_worker_calls_once_witness:
  "snd (run_state (SyscallsWorker_run_payload (\<lambda>n. Inr (Sys_other n)) (\<lambda>_. True) small_kernel True
      (SyscallsWorker_new \<lparr>restart_interval = 10, per_core = True, workers = 1,
         workload = Syscalls (Fin 0) False 39 Map.empty, duration = 0\<rparr> 0 0) 0
      [demo_tick\<lparr>drawn := Infinity False\<rparr>]) []) =
    [] @ [Ev (Syscall (Sys_other 39) [], small_kernel [] (Syscall (Sys_other 39) [])), Slept (- 1)]"
  by (rule default_worker_calls_once) (simp_all add: clock_ok_def)

text \<open>The argument map of an \<open>open\<close> workload, and the call made from it.\<close>

definition open_kvs :: "string \<Rightarrow> usize \<Rightarrow> usize \<Rightarrow> (string \<times> string) list" where
  "open_kvs path f m =
     [(''pathname'', path), (''flags'', show_nat (unat f)), (''mode'', show_nat (unat m))]"

lemma open_args_map:
  assumes "CHR '','' \<notin> set path"
  shows "deserialize_args (Inr (render_args (open_kvs path f m))) = Inr (map_of (rev (open_kvs path f m)))"
proof -
  have p: "list_all printable_arg (open_kvs path f m)" "open_kvs path f m \<noteq> []"
    using assms by (simp_all add: printable_arg_def open_kvs_def)
  show ?thesis
    using traverse_parse_arg_render [OF p(1)] split_render_args [OF p]
    by (simp add: deserialize_args_def foldl_upd_map_of)
qed

lemma open_args_primary:
  assumes "CHR 0x00 \<notin> set path" and "CHR '','' \<notin> set path"
  shows "primary (SysCallerEnum_new Sys_open (map_of (rev (open_kvs path f m)))) =
           Syscall Sys_open [CStr path, Num f, Num m]"
  using assms cstring_conv.get_present [of path "map_of (rev (open_kvs path f m))" "''pathname''"]
    usize_conv.get_present [of "map_of (rev (open_kvs path f m))" "''flags''" f]
    usize_conv.get_present [of "map_of (rev (open_kvs path f m))" "''mode''" m]
  by (simp add: OpenCall_new_def open_kvs_def)

text \<open>
  The arguments string of the configuration reaches the kernel: a path
  without comma and NUL and two decimal numbers are the arguments of \<open>open\<close>.
\<close>

lemma open_arguments_end_to_end:
  assumes "CHR 0x00 \<notin> set path" and "CHR '','' \<notin> set path"
  shows "map_res (\<lambda>m. primary (SysCallerEnum_new Sys_open m))
           (deserialize_args (Inr (render_args
              [(''pathname'', path), (''flags'', show_nat (unat f)), (''mode'', show_nat (unat m))]))) =
         Inr (Syscall Sys_open [CStr path, Num f, Num m])"
  using open_args_map [OF assms(2), of f m] open_args_primary [OF assms, of f m]
  by (simp add: open_kvs_def)

lemma open_arguments_end_to_end_witness:
  "map_res (\<lambda>m. primary (SysCallerEnum_new Sys_open m))
     (deserialize_args (Inr (render_args [(''pathname'', ''/etc/hosts''),
        (''flags'', show_nat (unat (66 :: usize))), (''mode'', show_nat (unat (420 :: usize)))]))) =
   Inr (Syscall Sys_open [CStr ''/etc/hosts'', Num 66, Num 420])"
  by (rule open_arguments_end_to_end) simp_all

end
