(* ===== verification/Io_Uring.thy ===== *)
theory Io_Uring
  imports Syscalls
begin

text \<open>
  The io\_uring worker, \<open>src/worker/io_uring\<close>: the entries the four callers
  build from their arguments, their \<open>submit\<close>, the choice of a caller by opcode
  and \<open>run_payload\<close>. The ring is a parameter: what it answers to a push, to a
  wait and to a read of the completion queue is any function of the trace.
\<close>

section \<open>Entries and the ring\<close>

record OpenHow =
  how_flags :: u64
  how_mode :: u64
  how_resolve :: u64

text \<open>A submission queue entry, with what its pointers point to.\<close>

datatype sqe =
    OpenAt (sqe_fd: i32) (sqe_path: string) (sqe_flags: i32) (sqe_mode: u32)
  | OpenAt2 (sqe_fd: i32) (sqe_path: string) (sqe_how: OpenHow)
  | Statx (sqe_fd: i32) (sqe_path: string) (sqe_flags: i32) (sqe_mask: u32)
  | UnlinkAt (sqe_fd: i32) (sqe_path: string) (sqe_flags: i32)

fun opcode :: "sqe \<Rightarrow> u8" where
  "opcode (OpenAt d p f m) = 18"
| "opcode (Statx d p f m) = 21"
| "opcode (OpenAt2 d p h) = 28"
| "opcode (UnlinkAt d p f) = 36"

datatype ring_event =
    Pushed sqe bool
  | Waited "errno option + usize"
  | Reaped "i32 option"
  | Ring_sys os_call answer

type_synonym ring_trace = "ring_event trace"

record ring_kernel =
  rk_push :: "ring_trace \<Rightarrow> sqe \<Rightarrow> bool"
  rk_wait :: "ring_trace \<Rightarrow> usize \<Rightarrow> errno option + usize"
  rk_next :: "ring_trace \<Rightarrow> i32 option"
  rk_sys :: "ring_trace \<Rightarrow> os_call \<Rightarrow> answer"

definition ring_push :: "ring_kernel \<Rightarrow> sqe \<Rightarrow> (ring_trace, bool) state" where
  "ring_push rk e = State (\<lambda>w. (rk_push rk w e, w @ [Ev (Pushed e (rk_push rk w e))]))"

definition ring_wait :: "ring_kernel \<Rightarrow> usize \<Rightarrow> (ring_trace, errno option + usize) state" where
  "ring_wait rk n = State (\<lambda>w. (rk_wait rk w n, w @ [Ev (Waited (rk_wait rk w n))]))"

definition ring_next :: "ring_kernel \<Rightarrow> (ring_trace, i32 option) state" where
  "ring_next rk = State (\<lambda>w. (rk_next rk w, w @ [Ev (Reaped (rk_next rk w))]))"

definition ring_sys :: "ring_kernel \<Rightarrow> os_call \<Rightarrow> (ring_trace, answer) state" where
  "ring_sys rk c = State (\<lambda>w. (rk_sys rk w c, w @ [Ev (Ring_sys c (rk_sys rk w c))]))"

definition ENOSPC :: errno where "ENOSPC = 28"

section \<open>The callers\<close>

abbreviation arg_i32 :: "args_map \<Rightarrow> string \<Rightarrow> i32 \<Rightarrow> i32" where
  "arg_i32 \<equiv> ArgsMap_get i32_from_str"

abbreviation arg_u32 :: "args_map \<Rightarrow> string \<Rightarrow> u32 \<Rightarrow> u32" where
  "arg_u32 \<equiv> ArgsMap_get u32_from_str"

abbreviation arg_u64 :: "args_map \<Rightarrow> string \<Rightarrow> u64 \<Rightarrow> u64" where
  "arg_u64 \<equiv> ArgsMap_get u64_from_str"

text \<open>
  What the four \<open>submit\<close> functions begin with: push the entry, submit and wait
  for one completion, take one completion.
\<close>

definition roundtrip_entry :: "ring_kernel \<Rightarrow> sqe \<Rightarrow> (ring_trace, errno + i32) state" where
  "roundtrip_entry rk e = do {
     ok \<leftarrow> ring_push rk e;
     if \<not> ok then State_Monad.return (Inl ENOSPC)
     else do {
       r \<leftarrow> ring_wait rk 1;
       case r of
         Inl err \<Rightarrow> State_Monad.return (Inl (case err of Some n \<Rightarrow> n | None \<Rightarrow> ENOSPC))
       | Inr _ \<Rightarrow> do {
           cqe \<leftarrow> ring_next rk;
           case cqe of
             None \<Rightarrow> State_Monad.return (Inl ENOSPC)
           | Some res \<Rightarrow> State_Monad.return (Inr res)
         }
     }
   }"

text \<open>The end of the two opening callers and of the two others.\<close>

definition close_result :: "ring_kernel \<Rightarrow> i32 \<Rightarrow> (ring_trace, answer) state" where
  "close_result rk res =
     (if - 1 <s res then do {
        _ \<leftarrow> ring_sys rk (Syscall Sys_close [Num (scast res)]);
        State_Monad.return (Inr (scast res))
      } else State_Monad.return (Inl (- res)))"

definition zero_result :: "i32 \<Rightarrow> (ring_trace, answer) state" where
  "zero_result res =
     (if res = 0 then State_Monad.return (Inr 0) else State_Monad.return (Inl (- res)))"

record OpenatIOUringCall =
  uring_openat :: sqe
  uring_openat_pathname :: string

definition OpenatIOUringCall_new :: "args_map \<Rightarrow> OpenatIOUringCall" where
  "OpenatIOUringCall_new args =
     (let p = arg_cstring args ''pathname'' ''/tmp''
      in \<lparr>uring_openat = OpenAt (- 1) p (arg_i32 args ''flags'' 0) (arg_u32 args ''mode'' 0),
          uring_openat_pathname = p\<rparr>)"

definition OpenatIOUringCall_submit ::
    "ring_kernel \<Rightarrow> OpenatIOUringCall \<Rightarrow> (ring_trace, answer) state" where
  "OpenatIOUringCall_submit rk c = try_res (roundtrip_entry rk (uring_openat c)) (close_result rk)"

record Openat2IOUringCall =
  uring_openat2 :: sqe
  uring_openat2_pathname :: string
  uring_openat2_openhow :: OpenHow

definition Openat2IOUringCall_new :: "args_map \<Rightarrow> Openat2IOUringCall" where
  "Openat2IOUringCall_new args =
     (let p = arg_cstring args ''pathname'' ''/tmp'';
          h = \<lparr>how_flags = arg_u64 args ''flags'' 0, how_mode = arg_u64 args ''mode'' 0,
               how_resolve = arg_u64 args ''resolve'' 0\<rparr>
      in \<lparr>uring_openat2 = OpenAt2 (- 1) p h, uring_openat2_pathname = p, uring_openat2_openhow = h\<rparr>)"

definition Openat2IOUringCall_submit ::
    "ring_kernel \<Rightarrow> Openat2IOUringCall \<Rightarrow> (ring_trace, answer) state" where
  "Openat2IOUringCall_submit rk c = try_res (roundtrip_entry rk (uring_openat2 c)) (close_result rk)"

text \<open>The zeroed \<open>libc::statx\<close>, 256 bytes, is where the kernel writes; nothing reads it.\<close>

record StatxIOUringCall =
  uring_statx :: sqe
  uring_statx_pathname :: string
  uring_statx_struct :: "u8 list"

definition StatxIOUringCall_new :: "args_map \<Rightarrow> StatxIOUringCall" where
  "StatxIOUringCall_new args =
     (let p = arg_cstring args ''pathname'' ''/tmp''
      in \<lparr>uring_statx = Statx (- 1) p (arg_i32 args ''flags'' 0) (arg_u32 args ''mask'' 0),
          uring_statx_pathname = p, uring_statx_struct = replicate 256 0\<rparr>)"

definition StatxIOUringCall_submit ::
    "ring_kernel \<Rightarrow> StatxIOUringCall \<Rightarrow> (ring_trace, answer) state" where
  "StatxIOUringCall_submit rk c = try_res (roundtrip_entry rk (uring_statx c)) zero_result"

record UnlinkatIOUringCall =
  uring_unlinkat :: sqe
  uring_unlinkat_pathname :: string

definition UnlinkatIOUringCall_new :: "args_map \<Rightarrow> UnlinkatIOUringCall" where
  "UnlinkatIOUringCall_new args =
     (let p = arg_cstring args ''pathname'' ''/not_existing_file''
      in \<lparr>uring_unlinkat = UnlinkAt (- 1) p (arg_i32 args ''flags'' 0),
          uring_unlinkat_pathname = p\<rparr>)"

definition UnlinkatIOUringCall_submit ::
    "ring_kernel \<Rightarrow> UnlinkatIOUringCall \<Rightarrow> (ring_trace, answer) state" where
  "UnlinkatIOUringCall_submit rk c = try_res (roundtrip_entry rk (uring_unlinkat c)) zero_result"

section \<open>Dispatch and the worker\<close>

datatype IOUringCallerEnum =
    OpenatIOUringCall OpenatIOUringCall
  | Openat2IOUringCall Openat2IOUringCall
  | StatxIOUringCall StatxIOUringCall
  | UnlinkatIOUringCall UnlinkatIOUringCall

fun IOUringCaller_submit :: "ring_kernel \<Rightarrow> IOUringCallerEnum \<Rightarrow> (ring_trace, answer) state" where
  "IOUringCaller_submit rk (OpenatIOUringCall c) = OpenatIOUringCall_submit rk c"
| "IOUringCaller_submit rk (Openat2IOUringCall c) = Openat2IOUringCall_submit rk c"
| "IOUringCaller_submit rk (StatxIOUringCall c) = StatxIOUringCall_submit rk c"
| "IOUringCaller_submit rk (UnlinkatIOUringCall c) = UnlinkatIOUringCall_submit rk c"

definition new_iouring_generator :: "u8 \<Rightarrow> args_map \<Rightarrow> WorkerError + IOUringCallerEnum" where
  "new_iouring_generator nr args =
     (if nr = 18 then Inr (OpenatIOUringCall (OpenatIOUringCall_new args))
      else if nr = 28 then Inr (Openat2IOUringCall (Openat2IOUringCall_new args))
      else if nr = 21 then Inr (StatxIOUringCall (StatxIOUringCall_new args))
      else if nr = 36 then Inr (UnlinkatIOUringCall (UnlinkatIOUringCall_new args))
      else Inl (InternalWithMessage ''Unsupported iouring number''))"

record IOUringWorker =
  iw_config :: BaseConfig
  iw_workload :: WorkloadConfig

definition IOUringWorker_new :: "WorkloadConfig \<Rightarrow> usize \<Rightarrow> usize \<Rightarrow> IOUringWorker" where
  "IOUringWorker_new w c p = \<lparr>iw_config = \<lparr>cpu = c, process = p\<rparr>, iw_workload = w\<rparr>"

text \<open>
  All four callers use the \<open>init\<close> of the trait, which cannot fail. Whether
  \<open>IoUring::new(1)\<close> succeeds is the parameter \<open>ring_ok\<close>.
\<close>

definition iouring_loop ::
    "ring_kernel \<Rightarrow> bool \<Rightarrow> bool \<Rightarrow> IOUringCallerEnum \<Rightarrow> loop_tick list \<Rightarrow> loop_state \<Rightarrow>
     (ring_trace, payload_outcome) state" where
  "iouring_loop rk oc tight c tks st = do {
     r \<leftarrow> payload_run oc tight (IOUringCaller_submit rk c) tks st;
     State_Monad.return (case r of Inl p \<Rightarrow> Panicked p | Inr st' \<Rightarrow> Running st')
   }"

definition IOUringWorker_run_payload ::
    "bool \<Rightarrow> (f64 \<Rightarrow> bool) \<Rightarrow> ring_kernel \<Rightarrow> bool \<Rightarrow> IOUringWorker \<Rightarrow> nat \<Rightarrow> loop_tick list \<Rightarrow>
     (ring_trace, payload_outcome) state" where
  "IOUringWorker_run_payload ring_ok exp_ok rk oc self t0 tks =
     (case workload (iw_workload self) of
        IOUring rate tight nr args \<Rightarrow>
          (case new_iouring_generator nr args of
             Inl e \<Rightarrow> State_Monad.return (Failed e)
           | Inr c \<Rightarrow>
               if \<not> ring_ok then State_Monad.return (Panicked Unwrap_Err)
               else (case exp_new exp_ok rate of
                       Inl p \<Rightarrow> State_Monad.return (Panicked p)
                     | Inr _ \<Rightarrow> iouring_loop rk oc tight c tks \<lparr>counter = 0, start = t0\<rparr>))
      | _ \<Rightarrow> State_Monad.return (Panicked Unreachable))"

definition show_IOUringWorker :: "IOUringWorker \<Rightarrow> string" where
  "show_IOUringWorker self = show_BaseConfig (iw_config self)"

section \<open>One submission\<close>

lemma run_ring [simp]:
  "run_state (ring_push rk e) w = (rk_push rk w e, w @ [Ev (Pushed e (rk_push rk w e))])"
  "run_state (ring_wait rk n) w = (rk_wait rk w n, w @ [Ev (Waited (rk_wait rk w n))])"
  "run_state (ring_next rk) w = (rk_next rk w, w @ [Ev (Reaped (rk_next rk w))])"
  "run_state (ring_sys rk c) w = (rk_sys rk w c, w @ [Ev (Ring_sys c (rk_sys rk w c))])"
  by (simp_all add: ring_push_def ring_wait_def ring_next_def ring_sys_def)

text \<open>The four ways a round trip ends, with the events it leaves.\<close>

lemma roundtrip_cases:
  obtains
    "run_state (roundtrip_entry rk e) w = (Inl ENOSPC, w @ [Ev (Pushed e False)])"
  | err n where "run_state (roundtrip_entry rk e) w = (Inl n, w @ [Ev (Pushed e True), Ev (Waited (Inl err))])"
      "n = (case err of Some m \<Rightarrow> m | None \<Rightarrow> ENOSPC)"
  | v where "run_state (roundtrip_entry rk e) w =
      (Inl ENOSPC, w @ [Ev (Pushed e True), Ev (Waited (Inr v)), Ev (Reaped None)])"
  | v res where "run_state (roundtrip_entry rk e) w =
      (Inr res, w @ [Ev (Pushed e True), Ev (Waited (Inr v)), Ev (Reaped (Some res))])"
      "rk_next rk (w @ [Ev (Pushed e True), Ev (Waited (Inr v))]) = Some res"
proof -
  let ?w1 = "w @ [Ev (Pushed e True)]"
  show ?thesis
    using that
    by (cases "rk_push rk w e"; cases "rk_wait rk ?w1 1";
        cases "rk_next rk (?w1 @ [Ev (Waited (rk_wait rk ?w1 1))])")
       (simp_all add: roundtrip_entry_def)
qed

fun entry_of :: "IOUringCallerEnum \<Rightarrow> sqe" where
  "entry_of (OpenatIOUringCall c) = uring_openat c"
| "entry_of (Openat2IOUringCall c) = uring_openat2 c"
| "entry_of (StatxIOUringCall c) = uring_statx c"
| "entry_of (UnlinkatIOUringCall c) = uring_unlinkat c"

fun opener :: "IOUringCallerEnum \<Rightarrow> bool" where
  "opener (OpenatIOUringCall c) = True"
| "opener (Openat2IOUringCall c) = True"
| "opener c = False"

lemma submit_eq:
  "IOUringCaller_submit rk c =
     try_res (roundtrip_entry rk (entry_of c)) (if opener c then close_result rk else zero_result)"
  by (cases c) (simp_all add: OpenatIOUringCall_submit_def Openat2IOUringCall_submit_def
      StatxIOUringCall_submit_def UnlinkatIOUringCall_submit_def)

end
