(* ===== verification/Io_Uring_Props.thy ===== *)
theory Io_Uring_Props
  imports Io_Uring
begin

text \<open>
  The io\_uring worker: the entry that is submitted, the descriptors that
  completions deliver, and the balance between submissions and completions.
\<close>

section \<open>Interfaces of the shared loop\<close>

text \<open>A submission ends like its round trip, with a close after an opened file.\<close>

lemma submit_cases:
  obtains
    n es where "run_state (IOUringCaller_submit rk c) w = (Inl n, w @ map Ev es)"
      "es = [Pushed (entry_of c) False] \<or>
       (\<exists>err. es = [Pushed (entry_of c) True, Waited (Inl err)]) \<or>
       (\<exists>v. es = [Pushed (entry_of c) True, Waited (Inr v), Reaped None])"
  | v res where "run_state (IOUringCaller_submit rk c) w =
      run_state (if opener c then close_result rk res else zero_result res)
        (w @ [Ev (Pushed (entry_of c) True), Ev (Waited (Inr v)), Ev (Reaped (Some res))])"
      "rk_next rk (w @ [Ev (Pushed (entry_of c) True), Ev (Waited (Inr v))]) = Some res"
proof (cases rule: roundtrip_cases [of rk "entry_of c" w])
  case 1
  then show ?thesis
    by (intro that(1) [of ENOSPC "[Pushed (entry_of c) False]"]) (simp_all add: submit_eq run_try_res)
next
  case (2 err n)
  then show ?thesis
    by (intro that(1) [of n "[Pushed (entry_of c) True, Waited (Inl err)]"])
       (simp_all add: submit_eq run_try_res)
next
  case (3 v)
  then show ?thesis
    by (intro that(1) [of ENOSPC "[Pushed (entry_of c) True, Waited (Inr v), Reaped None]"])
       (simp_all add: submit_eq run_try_res)
next
  case (4 v res)
  then show ?thesis by (intro that(2) [where v = v and res = res]) (simp_all add: submit_eq run_try_res)
qed

text \<open>The events of one submission: the entry is pushed first, and no other one is.\<close>

fun is_push :: "ring_event \<Rightarrow> bool" where
  "is_push (Pushed e ok) = True"
| "is_push _ = False"

definition one_push :: "(sqe \<Rightarrow> bool) \<Rightarrow> ring_event list \<Rightarrow> bool" where
  "one_push P es \<longleftrightarrow> (\<exists>e ok rest. es = Pushed e ok # rest \<and> P e \<and> list_all (\<lambda>x. \<not> is_push x) rest)"

lemma one_push_Cons [simp]:
  "one_push P (Pushed e ok # rest) \<longleftrightarrow> P e \<and> list_all (\<lambda>x. \<not> is_push x) rest"
  by (auto simp: one_push_def)

lemma one_push_mono: "one_push P es \<Longrightarrow> (\<And>e. P e \<Longrightarrow> Q e) \<Longrightarrow> one_push Q es"
  by (auto simp: one_push_def)

lemma close_result_events:
  "\<exists>es. list_all (\<lambda>x. \<not> is_push x) es \<and> snd (run_state (close_result rk res) w) = w @ map Ev es"
proof (cases "- 1 <s res")
  case True
  let ?e = "Ring_sys (Syscall Sys_close [Num (scast res)]) (rk_sys rk w (Syscall Sys_close [Num (scast res)]))"
  from True show ?thesis by (intro exI [of _ "[?e]"]) (simp add: close_result_def)
next
  case False
  then show ?thesis by (intro exI [of _ "[]"]) (simp add: close_result_def)
qed

lemma submit_events:
  "\<exists>es. one_push (\<lambda>e. e = entry_of c) es \<and> snd (run_state (IOUringCaller_submit rk c) w) = w @ map Ev es"
proof (cases rule: submit_cases [of rk c w])
  case (1 n es)
  then show ?thesis by (intro exI [of _ es]) auto
next
  case (2 v res)
  let ?es = "[Pushed (entry_of c) True, Waited (Inr v), Reaped (Some res)]"
  obtain es where "list_all (\<lambda>x. \<not> is_push x) es"
    "snd (run_state (close_result rk res) (w @ map Ev ?es)) = (w @ map Ev ?es) @ map Ev es"
    using close_result_events by blast
  with 2 show ?thesis
    by (intro exI [of _ "?es @ (if opener c then es else [])"]) (simp add: zero_result_def)
qed

interpretation submitter: payload_calls "\<lambda>(rk, c). IOUringCaller_submit rk c"
    "\<lambda>(rk, c). one_push (\<lambda>e. e = entry_of c)"
  by unfold_locales (simp add: submit_events split: prod.split)

text \<open>Descriptors: a non-negative result of an opening entry is one.\<close>

fun ring_fd_effect :: "ring_event \<Rightarrow> usize set \<Rightarrow> usize set" where
  "ring_fd_effect (Reaped (Some res)) fds = (if - 1 <s res then insert (scast res) fds else fds)"
| "ring_fd_effect (Ring_sys (Syscall s args) r) fds =
     (if s = Sys_close then (case args of [Num fd] \<Rightarrow> fds - {fd} | _ \<Rightarrow> fds) else fds)"
| "ring_fd_effect _ fds = fds"

abbreviation ring_fds :: "usize set \<Rightarrow> ring_trace \<Rightarrow> usize set" where
  "ring_fds l0 w \<equiv> ledger ring_fd_effect l0 w"

definition fresh_ring :: "usize set \<Rightarrow> ring_kernel \<Rightarrow> bool" where
  "fresh_ring l0 rk \<longleftrightarrow>
     (\<forall>w res. rk_next rk w = Some res \<longrightarrow> - 1 <s res \<longrightarrow> scast res \<notin> ring_fds l0 w)"

lemma submit_keeps_fds:
  assumes "fresh_ring l0 rk" and "opener c"
  shows "ring_fds l0 (snd (run_state (IOUringCaller_submit rk c) w)) = ring_fds l0 w"
proof (cases rule: submit_cases [of rk c w])
  case (1 n es)
  then show ?thesis by auto
next
  case (2 v res)
  let ?w1 = "w @ [Ev (Pushed (entry_of c) True), Ev (Waited (Inr v))]"
  have "scast res \<notin> ring_fds l0 ?w1" if "- 1 <s res"
    using assms(1) 2(2) that unfolding fresh_ring_def by blast
  with 2(1) assms(2) show ?thesis by (auto simp: close_result_def)
qed

interpretation ring_frame: payload_frame "\<lambda>(rk, c). IOUringCaller_submit rk c" ring_fd_effect l0
    "\<lambda>(rk, c). fresh_ring l0 rk \<and> opener c" for l0
  by unfold_locales (auto simp: submit_keeps_fds)

text \<open>The balance: every accepted entry is completed, or lost to a failed wait or an empty queue.\<close>

definition count_ev :: "('a \<Rightarrow> bool) \<Rightarrow> 'a trace \<Rightarrow> nat" where
  "count_ev P w = length (filter (\<lambda>e. case e of Ev a \<Rightarrow> P a | _ \<Rightarrow> False) w)"

lemma count_ev_simps [simp]:
  "count_ev P [] = 0" "count_ev P (w @ w') = count_ev P w + count_ev P w'"
  "count_ev P (Ev a # w) = (if P a then 1 else 0) + count_ev P w"
  by (simp_all add: count_ev_def)

lemma count_ev_quiet [simp]: "quiet es \<Longrightarrow> count_ev P es = 0"
  by (induction es) (auto simp: count_ev_def split: entry.splits)

fun is_accepted :: "ring_event \<Rightarrow> bool" where
  "is_accepted (Pushed e ok) = ok"
| "is_accepted _ = False"

fun is_completed :: "ring_event \<Rightarrow> bool" where
  "is_completed (Reaped r) = (r \<noteq> None)"
| "is_completed _ = False"

fun is_lost :: "ring_event \<Rightarrow> bool" where
  "is_lost (Waited (Inl e)) = True"
| "is_lost (Reaped None) = True"
| "is_lost _ = False"

definition balanced :: "ring_trace \<Rightarrow> bool" where
  "balanced w \<longleftrightarrow> count_ev is_accepted w = count_ev is_completed w + count_ev is_lost w"

lemma submit_balanced:
  assumes "balanced w"
  shows "balanced (snd (run_state (IOUringCaller_submit rk c) w))"
proof (cases rule: submit_cases [of rk c w])
  case (1 n es)
  with assms show ?thesis by (auto simp: balanced_def)
next
  case (2 v res)
  with assms show ?thesis by (simp add: balanced_def close_result_def zero_result_def)
qed

interpretation balance: payload_inv "\<lambda>(rk, c). IOUringCaller_submit rk c" "\<lambda>_. balanced"
  by unfold_locales (auto simp: submit_balanced, simp add: balanced_def)

lemma iouring_cases:
  assumes "run_state (IOUringWorker_run_payload ring_ok exp_ok rk oc self t0 tks) w = (out, w')"
  obtains "w' = w"
  | rate tight nr args c where "workload (iw_workload self) = IOUring rate tight nr args"
      "new_iouring_generator nr args = Inr c"
      "w' = snd (run_state (payload_run oc tight (IOUringCaller_submit rk c) tks \<lparr>counter = 0, start = t0\<rparr>) w)"
proof (cases "w' = w")
  case True
  then show ?thesis by (rule that(1))
next
  case False
  show ?thesis
  proof (cases "workload (iw_workload self)")
    case (IOUring rate tight nr args)
    with assms False show ?thesis
      by (cases "new_iouring_generator nr args"; cases ring_ok; cases "exp_ok rate")
         (auto simp: IOUringWorker_run_payload_def iouring_loop_def exp_new_def split: prod.splits intro: that(2))
  qed (use assms False in \<open>simp_all add: IOUringWorker_run_payload_def\<close>)
qed

section \<open>A ring to run the worker on\<close>

text \<open>It takes every entry, completes it at once with descriptor 7 if that is not open, and with
  an error otherwise.\<close>

definition small_ring :: ring_kernel where
  "small_ring = \<lparr>rk_push = \<lambda>w e. True, rk_wait = \<lambda>w n. Inr 1,
     rk_next = \<lambda>w. Some (if 7 \<in> ring_fds {0, 1, 2} w then - 24 else 7),
     rk_sys = \<lambda>w c. Inr 0\<rparr>"

lemma small_ring_fresh: "fresh_ring {0, 1, 2} small_ring"
  by (auto simp: fresh_ring_def small_ring_def word_sless_alt split: if_splits)

abbreviation demo_iouring :: "u8 \<Rightarrow> IOUringWorker" where
  "demo_iouring nr \<equiv> IOUringWorker_new \<lparr>restart_interval = 10, per_core = False, workers = 1,
     workload = IOUring (Fin 1) False nr Map.empty, duration = 0\<rparr> 0 0"

abbreviation ring_tick :: loop_tick where
  "ring_tick \<equiv> \<lparr>at_check = 5, at_rate = 6, at_restart = 7, drawn = Fin 2\<rparr>"

section \<open>Properties\<close>

text \<open>
  C12: every descriptor that a completion of an opening entry delivers is closed
  before the next entry is submitted: whatever the outcome, the worker leaves
  the delivered descriptors that are open as it found them.
\<close>

theorem delivered_fds_are_closed:
  assumes "fresh_ring l0 rk" and "workload (iw_workload self) = IOUring rate tight nr args"
    and "nr = 18 \<or> nr = 28"
    and "run_state (IOUringWorker_run_payload ring_ok exp_ok rk oc self t0 tks) w = (out, w')"
  shows "ring_fds l0 w' = ring_fds l0 w"
  using assms(4)
proof (cases rule: iouring_cases)
  case 1
  then show ?thesis by simp
next
  case (2 rate' tight' nr' args' c)
  with assms(2,3) have "opener c" by (auto simp: new_iouring_generator_def split: if_splits)
  with ring_frame.run_keeps [of l0 "(rk, c)"] assms(1) 2(3) show ?thesis by simp
qed

theorem delivered_fds_are_closed_witness:
  "ring_fds {0, 1, 2} (snd (run_state (IOUringWorker_run_payload True (\<lambda>_. True) small_ring True
     (demo_iouring 18) 0 [ring_tick, ring_tick]) [])) = {0, 1, 2}"
  using delivered_fds_are_closed [OF small_ring_fresh, of "demo_iouring 18" "Fin 1" False 18 Map.empty
      True "\<lambda>_. True" True 0 "[ring_tick, ring_tick]" "[]"]
  by (simp add: IOUringWorker_new_def prod_eq_iff)

text \<open>
  C11: submissions and completions balance: of the entries the queue accepted,
  those whose completion was not read are exactly the ones whose wait failed or
  found the completion queue empty. A completion that such a failure leaves in
  the queue is not made up for by any later iteration.
\<close>

theorem submissions_balance_completions:
  assumes "run_state (IOUringWorker_run_payload ring_ok exp_ok rk oc self t0 tks) [] = (out, w)"
  shows "count_ev is_accepted w = count_ev is_completed w + count_ev is_lost w"
  using assms
proof (cases rule: iouring_cases)
  case 1
  then show ?thesis by simp
next
  case (2 rate tight nr args c)
  with balance.run_inv [of "[]" oc tight "(rk, c)"] show ?thesis by (simp add: balanced_def)
qed

theorem submissions_balance_completions_witness:
  "\<exists>out w. run_state (IOUringWorker_run_payload True (\<lambda>_. True) small_ring True
     (demo_iouring 21) 0 [ring_tick]) [] = (out, w) \<and>
   count_ev is_accepted w = count_ev is_completed w + count_ev is_lost w"
  using submissions_balance_completions [of True "\<lambda>_. True" small_ring True "demo_iouring 21" 0 "[ring_tick]"]
  by (metis prod.collapse)

text \<open>The entry of the caller that is built for an opcode.\<close>

lemma generator_builds_requested_opcode:
  "case new_iouring_generator nr args of
     Inr c \<Rightarrow> nr \<in> {18, 21, 28, 36} \<and> opcode (entry_of c) = nr \<and> sqe_fd (entry_of c) = - 1
   | Inl e \<Rightarrow> nr \<notin> {18, 21, 28, 36} \<and> e = InternalWithMessage ''Unsupported iouring number''"
  by (simp add: new_iouring_generator_def OpenatIOUringCall_new_def Openat2IOUringCall_new_def
      StatxIOUringCall_new_def UnlinkatIOUringCall_new_def Let_def)

text \<open>
  C36: the worker submits what it is configured for. With one of the four supported
  opcodes no answer of the ring ends the loop, and each iteration pushes exactly one
  entry, first of all, with the configured opcode and relative to descriptor -1,
  and, unless the loop is tight, sleeps the drawn interval. With any other opcode
  the worker returns an error with a message and submits nothing.
\<close>

theorem iouring_worker_submits_requested:
  assumes "workload (iw_workload self) = IOUring rate tight nr args"
    and "exp_ok rate" and "list_all clock_ok tks" and "length tks < 2 ^ 64"
  shows "if nr \<in> {18, 21, 28, 36}
         then \<exists>st bs. run_state (IOUringWorker_run_payload True exp_ok rk oc self t0 tks) w =
                (Running st, w @ concat bs) \<and>
              list_all2 (loop_block (one_push (\<lambda>e. opcode e = nr \<and> sqe_fd e = - 1)) tight) tks bs \<and>
              unat (counter st) \<le> length tks
         else run_state (IOUringWorker_run_payload True exp_ok rk oc self t0 tks) w =
                (Failed (InternalWithMessage ''Unsupported iouring number''), w)"
proof (cases "new_iouring_generator nr args")
  case (Inl e)
  with generator_builds_requested_opcode [of nr args] assms(1) show ?thesis
    by (simp add: IOUringWorker_run_payload_def)
next
  case (Inr c)
  with generator_builds_requested_opcode [of nr args]
  have c: "nr \<in> {18, 21, 28, 36}" "opcode (entry_of c) = nr" "sqe_fd (entry_of c) = - 1" by simp_all
  from submitter.run_blocks [OF assms(3), of "\<lparr>counter = 0, start = t0\<rparr>" oc tight "(rk, c)" w] assms(4)
  obtain st bs where "run_state (payload_run oc tight (IOUringCaller_submit rk c) tks
      \<lparr>counter = 0, start = t0\<rparr>) w = (Inr st, w @ concat bs)"
    "list_all2 (loop_block (one_push (\<lambda>e. e = entry_of c)) tight) tks bs"
    "unat (counter st) \<le> length tks" by auto
  moreover from this(2)
  have "list_all2 (loop_block (one_push (\<lambda>e. opcode e = nr \<and> sqe_fd e = - 1)) tight) tks bs"
    by (rule list_all2_mono) (use c in \<open>auto elim!: loop_block_mono one_push_mono\<close>)
  ultimately show ?thesis using Inr assms(1,2) c(1)
    by (simp add: IOUringWorker_run_payload_def iouring_loop_def exp_new_def) (intro exI [of _ bs]; simp)
qed

theorem iouring_worker_submits_requested_witness:
  "(\<exists>st bs. run_state (IOUringWorker_run_payload True (\<lambda>_. True) small_ring True
      (demo_iouring 36) 0 [ring_tick, ring_tick]) [] = (Running st, [] @ concat bs) \<and>
    list_all2 (loop_block (one_push (\<lambda>e. opcode e = 36 \<and> sqe_fd e = - 1)) False) [ring_tick, ring_tick] bs) \<and>
   run_state (IOUringWorker_run_payload True (\<lambda>_. True) small_ring True (demo_iouring 99) 0 [ring_tick]) [] =
     (Failed (InternalWithMessage ''Unsupported iouring number''), [])"
proof -
  note submits = iouring_worker_submits_requested [where rk = small_ring and oc = True and exp_ok = "\<lambda>_. True"
      and rate = "Fin 1" and tight = False and args = Map.empty and w = "[]" and ?t0.0 = 0]
  show ?thesis
    using submits [of "demo_iouring 36" 36 "[ring_tick, ring_tick]"] submits [of "demo_iouring 99" 99 "[ring_tick]"]
    by (auto simp: IOUringWorker_new_def clock_ok_def)
qed

end
