(* ===== verification/Endpoints.thy ===== *)
theory Endpoints
  imports Config "HOL-Library.Multiset"
begin

text \<open>
  The endpoint worker, \<open>src/worker/endpoints.rs\<close>: a range of ports, one thread
  per port that binds it and sleeps. What the operating system says to a bind
  is a parameter.
\<close>

record EndpointWorker =
  ew_config :: BaseConfig
  ew_restart_interval :: u64
  ew_lower :: usize
  ew_upper :: usize

definition EndpointWorker_new :: "WorkloadConfig \<Rightarrow> usize \<Rightarrow> usize \<Rightarrow> usize \<Rightarrow> usize \<Rightarrow> EndpointWorker" where
  "EndpointWorker_new w c p l u = \<lparr>ew_config = \<lparr>cpu = c, process = p\<rparr>,
     ew_restart_interval = restart_interval w, ew_lower = l, ew_upper = u\<rparr>"

text \<open>
  \<open>TcpListener::bind\<close> on a text: the standard library splits it at the last
  colon and refuses a port that is not a \<open>u16\<close> before it asks the system.
\<close>

datatype bind_error = Bad_address | Bad_port | Os_error i32

fun rsplit_once :: "char \<Rightarrow> string \<Rightarrow> (string \<times> string) option" where
  "rsplit_once c [] = None"
| "rsplit_once c (x # xs) =
     (case rsplit_once c xs of
        Some (a, b) \<Rightarrow> Some (x # a, b)
      | None \<Rightarrow> if x = c then Some ([], xs) else None)"

text \<open>The calls a thread makes to the system.\<close>

datatype endpoint_event = Bind string u16 | Sleep_secs u64

definition tcp_bind ::
    "(string \<Rightarrow> u16 \<Rightarrow> i32 + unit) \<Rightarrow> string \<Rightarrow> endpoint_event list \<times> (bind_error + unit)" where
  "tcp_bind os addr =
     (case rsplit_once CHR '':'' addr of
        None \<Rightarrow> ([], Inl Bad_address)
      | Some (host, p) \<Rightarrow>
          (case u16_from_str p of
             None \<Rightarrow> ([], Inl Bad_port)
           | Some port \<Rightarrow>
               ([Bind host port], case os host port of Inl e \<Rightarrow> Inl (Os_error e) | Inr u \<Rightarrow> Inr u)))"

text \<open>\<open>listen\<close>: what the thread does and the result its caller throws away.\<close>

definition listen ::
    "(string \<Rightarrow> u16 \<Rightarrow> i32 + unit) \<Rightarrow> usize \<Rightarrow> u64 \<Rightarrow> endpoint_event list \<times> (bind_error + unit)" where
  "listen os port secs =
     (case tcp_bind os (''0.0.0.0:'' @ show_nat (unat port)) of
        (evs, Inl e) \<Rightarrow> (evs, Inl e)
      | (evs, Inr _) \<Rightarrow> (evs @ [Sleep_secs secs], Inr ()))"

text \<open>
  \<open>run_payload\<close>: one thread per port of the range, then every thread is joined. A
  failed spawn panics (\<open>spawn_ok\<close> is the system's answer); a bind error does not.
  The threads run concurrently, so the result is the multiset of what each of
  them does: only the events of one thread have an order.
\<close>

definition EndpointWorker_run_payload ::
    "(usize \<Rightarrow> bool) \<Rightarrow> (string \<Rightarrow> u16 \<Rightarrow> i32 + unit) \<Rightarrow> EndpointWorker \<Rightarrow>
     panic + (endpoint_event list \<times> (bind_error + unit)) multiset" where
  "EndpointWorker_run_payload spawn_ok os self =
     map_res mset (traverse (\<lambda>port. if spawn_ok port then Inr (listen os port (ew_restart_interval self))
                                    else Inl (Expect ''failed to spawn thread''))
       (map of_nat [unat (ew_lower self)..<unat (ew_upper self)]))"

definition show_EndpointWorker :: "EndpointWorker \<Rightarrow> string" where
  "show_EndpointWorker self = show_BaseConfig (ew_config self)"

section \<open>What a thread does\<close>

lemma rsplit_once_fresh: "c \<notin> set s \<Longrightarrow> rsplit_once c s = None"
  by (induction s) auto

lemma rsplit_once_append: "c \<notin> set b \<Longrightarrow> rsplit_once c (a @ c # b) = Some (a, b)"
  by (induction a) (auto simp: rsplit_once_fresh)

lemma show_nat_no_colon: "CHR '':'' \<notin> set (show_nat n)"
  by (auto dest: show_nat_char_range)

lemma split_port_address:
  "rsplit_once CHR '':'' (''0.0.0.0:'' @ show_nat n) = Some (''0.0.0.0'', show_nat n)"
  using rsplit_once_append [OF show_nat_no_colon, of "''0.0.0.0''" n] by simp

lemma listen_bind_events:
  "listen os port secs =
     (if unat port < 65536 then
        (case os ''0.0.0.0'' (ucast port) of
           Inl e \<Rightarrow> ([Bind ''0.0.0.0'' (ucast port)], Inl (Os_error e))
         | Inr _ \<Rightarrow> ([Bind ''0.0.0.0'' (ucast port), Sleep_secs secs], Inr ()))
      else ([], Inl Bad_port))"
proof -
  have "(of_nat (unat port) :: u16) = ucast port" by (simp add: of_nat_unat)
  then show ?thesis
    using split_port_address [of "unat port"]
    by (auto simp: listen_def tcp_bind_def u16_from_str_def parse_simps split: sum.splits)
qed

text \<open>The ports the threads ask to bind.\<close>

definition asked_ports :: "(endpoint_event list \<times> 'r) multiset \<Rightarrow> u16 multiset" where
  "asked_ports rs = (\<Sum>(evs, _) \<in># rs. mset (concat (map (\<lambda>e. case e of Bind h p \<Rightarrow> [p] | _ \<Rightarrow> []) evs)))"

lemma asked_ports_listen:
  "asked_ports (mset (map (\<lambda>p. listen os p secs) ps)) =
     mset (map ucast (filter (\<lambda>p. unat p < 65536) ps))"
  by (induction ps) (auto simp: asked_ports_def listen_bind_events split: sum.splits)

section \<open>Properties\<close>

text \<open>
  C34: the worker succeeds whatever the system answers to its binds. Its threads
  ask to bind each port of its range that is a valid port number once, and no
  other, and a port that was bound is held for the restart interval.
\<close>

theorem endpoint_ports_bound:
  assumes "\<And>p. spawn_ok p"
  shows "\<exists>rs. EndpointWorker_run_payload spawn_ok os self = Inr rs \<and>
           size rs = unat (ew_upper self) - unat (ew_lower self) \<and>
           image_mset unat (asked_ports rs) =
             mset [unat (ew_lower self)..<min (unat (ew_upper self)) (max 65536 (unat (ew_lower self)))] \<and>
           (\<forall>r. r \<in># rs \<longrightarrow> snd r = Inr () \<longrightarrow>
              (\<exists>p. fst r = [Bind ''0.0.0.0'' p, Sleep_secs (ew_restart_interval self)]))"
proof -
  let ?is = "[unat (ew_lower self)..<unat (ew_upper self)]"
  let ?ps = "map of_nat ?is :: usize list"
  let ?rs = "map (\<lambda>p. listen os p (ew_restart_interval self)) ?ps"
  have of_nat_back: "unat (of_nat i :: usize) = i" if "i \<in> set ?is" for i
  proof -
    from that have "i < 2 ^ 64" using less_trans [OF _ unat_bounds(3) [of "ew_upper self"], of i] by simp
    then show ?thesis by (simp add: unsigned_of_nat take_bit_nat_eq_self)
  qed
  have run: "EndpointWorker_run_payload spawn_ok os self = Inr (mset ?rs)"
    unfolding EndpointWorker_run_payload_def using assms
    by (simp add: traverse_map_Inr comp_def)
  have range: "filter (\<lambda>i. i < 65536) [l..<u] = [l..<min u (max 65536 l)]" for l u :: nat
    by (induction u) (auto simp: min_def max_def)
  have "filter (\<lambda>p. unat p < 65536) ?ps = map of_nat (filter (\<lambda>i. i < 65536) ?is)"
    unfolding filter_map comp_def
    by (intro arg_cong [of _ _ "map of_nat"] filter_cong refl) (simp only: of_nat_back)
  then have "asked_ports (mset ?rs) = mset (map (\<lambda>i. ucast (of_nat i :: usize)) (filter (\<lambda>i. i < 65536) ?is))"
    by (simp only: asked_ports_listen) (simp add: comp_def)
  moreover have "map (\<lambda>i. unat (ucast (of_nat i :: usize) :: u16)) (filter (\<lambda>i. i < 65536) ?is) =
      filter (\<lambda>i. i < 65536) ?is"
    by (auto simp: unsigned_of_nat unsigned_ucast_eq take_bit_nat_eq_self intro!: map_idI)
  ultimately have ports: "image_mset unat (asked_ports (mset ?rs)) = mset (filter (\<lambda>i. i < 65536) ?is)"
    by (simp only: mset_map [symmetric] map_map comp_def)
  have held: "\<exists>p. fst r = [Bind ''0.0.0.0'' p, Sleep_secs (ew_restart_interval self)]"
    if "r \<in># mset ?rs" "snd r = Inr ()" for r
    using that by (auto simp: listen_bind_events split: sum.splits if_splits)
  have "size (mset ?rs) = unat (ew_upper self) - unat (ew_lower self)" by simp
  with run ports [unfolded range] held show ?thesis by blast
qed

theorem endpoint_ports_bound_witness:
  "\<exists>rs. EndpointWorker_run_payload (\<lambda>_. True) (\<lambda>h p. if p = 65535 then Inl 98 else Inr ())
      (EndpointWorker_new \<lparr>restart_interval = 10, per_core = False, workers = 1,
         workload = Endpoints (Uniform 1 100), duration = 0\<rparr> 0 0 65534 65538) = Inr rs \<and>
    size rs = 4 \<and> image_mset unat (asked_ports rs) = mset [65534, 65535]"
  using endpoint_ports_bound [of "\<lambda>_. True" "\<lambda>h p. if p = 65535 then Inl 98 else Inr ()"
      "EndpointWorker_new \<lparr>restart_interval = 10, per_core = False, workers = 1,
         workload = Endpoints (Uniform 1 100), duration = 0\<rparr> 0 0 65534 65538"]
  by (auto simp: EndpointWorker_new_def upt_rec)

end
