(* ===== verification/Processes.thy ===== *)
theory Processes
  imports Config
begin

text \<open>
  The process worker, \<open>src/worker/processes.rs\<close>: a loop that starts a thread per
  sampled lifetime and sleeps a sampled interval, and what such a thread does.
\<close>

section \<open>One process\<close>

datatype fork_result = Fork_parent i32 | Fork_child | Fork_error

datatype process_event = Run_stub string | Wait_for i32 | Sleep_ms u64

record ProcessesWorker =
  pw_config :: BaseConfig
  pw_workload :: WorkloadConfig

definition ProcessesWorker_new :: "WorkloadConfig \<Rightarrow> usize \<Rightarrow> usize \<Rightarrow> ProcessesWorker" where
  "ProcessesWorker_new w c p = \<lparr>pw_config = \<lparr>cpu = c, process = p\<rparr>, pw_workload = w\<rparr>"

text \<open>
  What a thread meets: the characters \<open>Alphanumeric\<close> yields, whether the stub
  could be run, how the fork went and whether the wait worked.
\<close>

record process_env =
  alphanumeric :: "nat \<Rightarrow> char"
  output_ok :: bool
  forked :: fork_result
  wait_ok :: bool

text \<open>\<open>spawn_process\<close>: what the thread does, and how it ends.\<close>

definition spawn_process ::
    "process_env \<Rightarrow> ProcessesWorker \<Rightarrow> u64 \<Rightarrow> process_event list \<times> (panic + (WorkerError + unit))" where
  "spawn_process env self lifetime =
     (case workload (pw_workload self) of
        Processes _ _ random \<Rightarrow>
          if random then
            ([Run_stub (map (alphanumeric env) [0..<7])],
             if output_ok env then Inr (Inr ()) else Inl Unwrap_Err)
          else (case forked env of
              Fork_parent child \<Rightarrow>
                ([Wait_for child], if wait_ok env then Inr (Inr ()) else Inl Unwrap_Err)
            | Fork_child \<Rightarrow> ([Sleep_ms lifetime], Inr (Inr ()))
            | Fork_error \<Rightarrow> ([], Inr (Inr ())))
      | _ \<Rightarrow> ([], Inl Unreachable))"

section \<open>The loop\<close>

text \<open>The main thread starts threads, each with its lifetime, and sleeps.\<close>

datatype arrival_event = Start_thread u64 | Pause_ms u64

record process_tick =
  lifetime_draw :: f64
  thread_ok :: bool
  interval_draw :: f64

definition in_ms :: "f64 \<Rightarrow> u64" where
  "in_ms x = of_int (scaled 64 1000 x)"

text \<open>One iteration, with its events, and a panic of \<open>Exp::new(..).unwrap()\<close> or of the spawn.\<close>

definition processes_step ::
    "(f64 \<Rightarrow> bool) \<Rightarrow> f64 \<Rightarrow> f64 \<Rightarrow> process_tick \<Rightarrow> arrival_event list \<times> (panic + unit)" where
  "processes_step exp_ok arrival departure tk =
     (case exp_new exp_ok departure of
        Inl p \<Rightarrow> ([], Inl p)
      | Inr _ \<Rightarrow>
          if \<not> thread_ok tk then ([], Inl (Expect ''failed to spawn thread''))
          else (case exp_new exp_ok arrival of
             Inl p \<Rightarrow> ([Start_thread (in_ms (lifetime_draw tk))], Inl p)
           | Inr _ \<Rightarrow>
               ([Start_thread (in_ms (lifetime_draw tk)), Pause_ms (in_ms (interval_draw tk))], Inr ())))"

fun processes_loop ::
    "(f64 \<Rightarrow> bool) \<Rightarrow> f64 \<Rightarrow> f64 \<Rightarrow> process_tick list \<Rightarrow> arrival_event list \<times> (panic + unit)" where
  "processes_loop exp_ok arrival departure [] = ([], Inr ())"
| "processes_loop exp_ok arrival departure (tk # tks) =
     (case processes_step exp_ok arrival departure tk of
        (evs, Inl p) \<Rightarrow> (evs, Inl p)
      | (evs, Inr _) \<Rightarrow>
          (let (evs', r) = processes_loop exp_ok arrival departure tks in (evs @ evs', r)))"

definition ProcessesWorker_run_payload ::
    "(f64 \<Rightarrow> bool) \<Rightarrow> ProcessesWorker \<Rightarrow> process_tick list \<Rightarrow> arrival_event list \<times> (panic + unit)" where
  "ProcessesWorker_run_payload exp_ok self tks =
     (case workload (pw_workload self) of
        Processes arrival departure _ \<Rightarrow> processes_loop exp_ok arrival departure tks
      | _ \<Rightarrow> ([], Inl Unreachable))"

definition show_ProcessesWorker :: "ProcessesWorker \<Rightarrow> string" where
  "show_ProcessesWorker self = show_BaseConfig (pw_config self)"

section \<open>Facts\<close>

lemma in_ms_value: "uint (in_ms x) = scaled 64 1000 x"
  using scaled_bound [of 64 1000 x] by (simp add: in_ms_def unsigned_of_int take_bit_int_eq_self)

lemma processes_loop_ok:
  assumes "exp_ok arrival" and "exp_ok departure" and "\<And>tk. tk \<in> set tks \<Longrightarrow> thread_ok tk"
  shows "processes_loop exp_ok arrival departure tks =
     (concat (map (\<lambda>tk. [Start_thread (in_ms (lifetime_draw tk)), Pause_ms (in_ms (interval_draw tk))]) tks),
      Inr ())"
  using assms by (induction tks) (simp_all add: processes_step_def exp_new_def)

section \<open>Properties\<close>

abbreviation demo_processes :: ProcessesWorker where
  "demo_processes \<equiv> ProcessesWorker_new \<lparr>restart_interval = 10, per_core = False, workers = 1,
     workload = Processes (Fin 10) (Fin 1) False, duration = 0\<rparr> 0 0"

text \<open>
  C37: with accepted rates, as long as threads can be created, the worker never stops: each iteration starts one
  thread with its lifetime and then pauses. A sampled time of \<open>q\<close> seconds below
  \<open>2 ^ 52\<close> milliseconds becomes a number of milliseconds that is off by at most
  one.
\<close>

theorem processes_arrive_on_schedule:
  assumes "workload (pw_workload self) = Processes arrival departure random"
    and "exp_ok arrival" and "exp_ok departure"
    and "\<And>tk. tk \<in> set tks \<Longrightarrow> thread_ok tk"
    and "\<And>tk. tk \<in> set tks \<Longrightarrow> \<exists>q. interval_draw tk = Fin q \<and> 0 \<le> q \<and> q * 1000 \<le> 2 ^ 52"
  shows "ProcessesWorker_run_payload exp_ok self tks =
           (concat (map (\<lambda>tk. [Start_thread (in_ms (lifetime_draw tk)), Pause_ms (in_ms (interval_draw tk))]) tks),
            Inr ()) \<and>
         (\<forall>tk q. tk \<in> set tks \<longrightarrow> interval_draw tk = Fin q \<longrightarrow>
            \<bar>of_int (uint (in_ms (interval_draw tk))) - q * 1000\<bar> \<le> 1)"
proof (intro conjI allI impI)
  show "ProcessesWorker_run_payload exp_ok self tks =
      (concat (map (\<lambda>tk. [Start_thread (in_ms (lifetime_draw tk)), Pause_ms (in_ms (interval_draw tk))]) tks),
       Inr ())"
    using processes_loop_ok [of exp_ok arrival departure tks] assms(1-4)
    by (simp add: ProcessesWorker_run_payload_def)
next
  fix tk q assume "tk \<in> set tks" "interval_draw tk = Fin q"
  with assms(5) [of tk] scaled_close [of q 1000 64]
  show "\<bar>of_int (uint (in_ms (interval_draw tk))) - q * 1000\<bar> \<le> 1" by (auto simp: in_ms_value)
qed

theorem processes_arrive_on_schedule_witness:
  "snd (ProcessesWorker_run_payload (\<lambda>_. True) demo_processes
      [\<lparr>lifetime_draw = Fin 1, thread_ok = True, interval_draw = Fin 2\<rparr>]) = Inr () \<and>
   \<bar>of_int (uint (in_ms (Fin 2))) - (2 * 1000 :: rat)\<bar> \<le> 1"
  using processes_arrive_on_schedule [of demo_processes "Fin 10" "Fin 1" False "\<lambda>_. True"
      "[\<lparr>lifetime_draw = Fin 1, thread_ok = True, interval_draw = Fin 2\<rparr>]"]
  by (simp add: ProcessesWorker_new_def)

text \<open>
  A thread never fails in an orderly way: it ends with \<open>Ok\<close> or panics, a
  failed fork is silently dropped, and only the forked child waits out the
  lifetime, so a process started as the stub does not depend on it.
\<close>

lemma spawn_process_outcome:
  assumes "workload (pw_workload self) = Processes arrival departure random"
  shows "(snd (spawn_process env self lifetime) = Inr (Inr ()) \<longleftrightarrow>
            (if random then output_ok env else \<forall>pid. forked env = Fork_parent pid \<longrightarrow> wait_ok env)) \<and>
         (Sleep_ms lifetime \<in> set (fst (spawn_process env self lifetime)) \<longleftrightarrow>
            \<not> random \<and> forked env = Fork_child) \<and>
         (random \<longrightarrow> spawn_process env self lifetime = spawn_process env self 0)"
  using assms by (auto simp: spawn_process_def split: fork_result.splits)

lemma spawn_process_outcome_witness:
  "snd (spawn_process \<lparr>alphanumeric = (\<lambda>_. CHR ''a''), output_ok = True, forked = Fork_error,
      wait_ok = False\<rparr> demo_processes 250) = Inr (Inr ())"
  using spawn_process_outcome [of demo_processes "Fin 10" "Fin 1" False
      "\<lparr>alphanumeric = (\<lambda>_. CHR ''a''), output_ok = True, forked = Fork_error, wait_ok = False\<rparr>" 250]
  by (simp add: ProcessesWorker_new_def)

end
