(* ===== verification/Bpf.thy ===== *)
theory Bpf
  imports Config Payload_Loop
begin

text \<open>
  The BPF worker, \<open>src/worker/bpf.rs\<close>: it loads the same two instructions
  \<open>nprogs\<close> times under different names, opens one perf event per program, links
  the two and then parks for ever. The kernel's answers, \<open>copy_instructions\<close> of
  the aya crate and the size of \<open>perf_event_attr\<close> are parameters.
\<close>

section \<open>Attributes and calls\<close>

datatype bpf_prog_type = BPF_PROG_TYPE_TRACEPOINT
datatype perf_type_id = PERF_TYPE_TRACEPOINT
datatype perf_event_sample_format = PERF_SAMPLE_RAW
datatype bpf_attach_type = BPF_PERF_EVENT

text \<open>Bytes of C strings are characters; the license and the instructions are pointed to.\<close>

record 'i prog_attr =
  pa_prog_type :: bpf_prog_type
  pa_insn_cnt :: u32
  pa_insns :: "'i list"
  pa_license :: string
  pa_prog_name :: "char list"

record perf_attr =
  pe_config :: u64
  pe_size :: u32
  pe_type :: perf_type_id
  pe_sample_type :: perf_event_sample_format
  pe_inherit :: u64

record link_attr =
  la_attach_type :: bpf_attach_type
  la_prog_fd :: u32
  la_target_fd :: u32

datatype 'i bpf_call =
    Prog_load "'i prog_attr"
  | Perf_event_open perf_attr i32 i32 i32 u64
  | Link_create link_attr

text \<open>\<open>libc::syscall\<close> returns a \<open>c_long\<close>; an error is \<open>-1\<close>, which the worker does not look at.\<close>

type_synonym 'i bpf_trace = "('i bpf_call \<times> 64 word) trace"
type_synonym 'i bpf_kernel = "'i bpf_trace \<Rightarrow> 'i bpf_call \<Rightarrow> 64 word"

definition bpf_sys :: "'i bpf_kernel \<Rightarrow> 'i bpf_call \<Rightarrow> ('i bpf_trace, 64 word) state" where
  "bpf_sys k c = State (\<lambda>w. (k w c, w @ [Ev (c, k w c)]))"

lemma run_bpf_sys [simp]: "run_state (bpf_sys k c) w = (k w c, w @ [Ev (c, k w c)])"
  by (simp add: bpf_sys_def)

section \<open>The worker\<close>

record BpfWorker =
  bw_config :: BaseConfig
  bw_workload :: WorkloadConfig

definition BpfWorker_new :: "WorkloadConfig \<Rightarrow> usize \<Rightarrow> usize \<Rightarrow> BpfWorker" where
  "BpfWorker_new w c p = \<lparr>bw_config = \<lparr>cpu = c, process = p\<rparr>, bw_workload = w\<rparr>"

definition bpf_program :: "u8 list" where
  "bpf_program = [0xb7, 0x00, 0x00, 0x00, 0x00, 0x00, 0x00, 0x00,
                  0x95, 0x00, 0x00, 0x00, 0x00, 0x00, 0x00, 0x00]"

text \<open>Copying the name over the front of the buffer, which is not cleared in between.\<close>

definition copy_name :: "char list \<Rightarrow> string \<Rightarrow> char list" where
  "copy_name name name_bytes =
     (let len = min (length name) (length name_bytes)
      in take len name_bytes @ drop len name)"

definition bpf_name :: "nat \<Rightarrow> string" where
  "bpf_name i = ''berserker'' @ show_nat i"

text \<open>One iteration: load, open the event, link. The buffer is passed on.\<close>

definition bpf_step ::
    "'i bpf_kernel \<Rightarrow> 'i prog_attr \<Rightarrow> perf_attr \<Rightarrow> nat \<Rightarrow> char list \<Rightarrow> ('i bpf_trace, char list) state" where
  "bpf_step k attr perf i name =
     (let name' = copy_name name (bpf_name i) in do {
        prog_fd \<leftarrow> bpf_sys k (Prog_load (attr\<lparr>pa_prog_name := name'\<rparr>));
        perf_event_fd \<leftarrow> bpf_sys k (Perf_event_open perf 0 (- 1) (- 1) 0);
        _ \<leftarrow> bpf_sys k (Link_create \<lparr>la_attach_type = BPF_PERF_EVENT,
               la_prog_fd = ucast prog_fd, la_target_fd = ucast perf_event_fd\<rparr>);
        State_Monad.return name'
      })"

fun bpf_load_all ::
    "'i bpf_kernel \<Rightarrow> 'i prog_attr \<Rightarrow> perf_attr \<Rightarrow> nat list \<Rightarrow> char list \<Rightarrow> ('i bpf_trace, char list) state" where
  "bpf_load_all k attr perf [] name = State_Monad.return name"
| "bpf_load_all k attr perf (i # is) name =
     do { name' \<leftarrow> bpf_step k attr perf i name; bpf_load_all k attr perf is name' }"

text \<open>A worker that does not panic is parked, with all its programs loaded.\<close>

datatype bpf_outcome = Bpf_panicked panic | Bpf_parked

definition BpfWorker_run_payload ::
    "(u8 list \<Rightarrow> 'e + 'i list) \<Rightarrow> u32 \<Rightarrow> 'i bpf_kernel \<Rightarrow> BpfWorker \<Rightarrow> ('i bpf_trace, bpf_outcome) state" where
  "BpfWorker_run_payload copy_instructions perf_size k self =
     (case workload (bw_workload self) of
        Bpf tp n \<Rightarrow>
          (case copy_instructions bpf_program of
             Inl _ \<Rightarrow> State_Monad.return (Bpf_panicked Unwrap_Err)
           | Inr insns \<Rightarrow> do {
               _ \<leftarrow> bpf_load_all k
                 \<lparr>pa_prog_type = BPF_PROG_TYPE_TRACEPOINT, pa_insn_cnt = of_nat (length insns),
                  pa_insns = insns, pa_license = ''GPL'' @ [CHR 0x00], pa_prog_name = replicate 16 (CHR 0x00)\<rparr>
                 \<lparr>pe_config = tp, pe_size = perf_size, pe_type = PERF_TYPE_TRACEPOINT,
                  pe_sample_type = PERF_SAMPLE_RAW, pe_inherit = 0\<rparr>
                 [0..<unat n] (replicate 16 (CHR 0x00));
               State_Monad.return Bpf_parked
             })
      | _ \<Rightarrow> State_Monad.return (Bpf_panicked Unreachable))"

definition show_BpfWorker :: "BpfWorker \<Rightarrow> string" where
  "show_BpfWorker self = show_BaseConfig (bw_config self)"

section \<open>The name buffer\<close>

definition padded :: "string \<Rightarrow> char list" where
  "padded s = take 16 (s @ replicate 16 (CHR 0x00))"

lemma length_padded [simp]: "length (padded s) = 16"
  by (simp add: padded_def)

lemma padded_Nil: "padded [] = replicate 16 (CHR 0x00)"
  by (simp add: padded_def)

lemma copy_name_padded:
  assumes "length a \<le> length b"
  shows "copy_name (padded a) b = padded b"
proof (rule nth_equalityI)
  show len: "length (copy_name (padded a) b) = length (padded b)"
    by (simp add: copy_name_def Let_def)
  fix j assume "j < length (copy_name (padded a) b)"
  with len have "j < 16" by simp
  with assms show "copy_name (padded a) b ! j = padded b ! j"
    by (auto simp: copy_name_def padded_def Let_def nth_append min_def)
qed

lemma takeWhile_padded:
  assumes "CHR 0x00 \<notin> set s"
  shows "takeWhile (\<lambda>c. c \<noteq> CHR 0x00) (padded s) = take 16 s"
proof -
  have "\<forall>c \<in> set (take 16 s). c \<noteq> CHR 0x00" using assms in_set_takeD by fastforce
  then show ?thesis
    by (cases "16 - length s") (simp_all add: padded_def takeWhile_append2 takeWhile_eq_all_conv)
qed

lemma padded_inj:
  assumes "padded s = padded t" and "CHR 0x00 \<notin> set s" and "CHR 0x00 \<notin> set t"
    and "length s \<le> 16" and "length t \<le> 16"
  shows "s = t"
proof -
  have "take 16 s = take 16 t"
    using takeWhile_padded [OF assms(2)] takeWhile_padded [OF assms(3)] assms(1) by metis
  with assms(4,5) show ?thesis by simp
qed

lemma length_show_nat_le: "n < 10 ^ Suc d \<Longrightarrow> length (show_nat n) \<le> Suc d"
proof (induction d arbitrary: n)
  case 0
  then show ?case by (simp add: show_nat.simps [of n])
next
  case (Suc d)
  then have "n div 10 < 10 ^ Suc d" by (simp add: less_mult_imp_div_less mult.commute)
  from Suc.IH [OF this] show ?case by (simp add: show_nat.simps [of n])
qed

lemma length_show_nat_mono: "m \<le> n \<Longrightarrow> length (show_nat m) \<le> length (show_nat n)"
proof (induction n arbitrary: m rule: show_nat.induct)
  case (1 n)
  show ?case
  proof (cases "m < 10")
    case True
    have "1 \<le> length (show_nat n)" by (simp add: Suc_le_eq)
    with True show ?thesis by (simp add: show_nat.simps [of m])
  next
    case False
    with "1.prems" "1.IH" [of "m div 10"] show ?thesis
      by (simp add: show_nat.simps [of m] show_nat.simps [of n] div_le_mono)
  qed
qed

lemma bpf_name_no_nul: "CHR 0x00 \<notin> set (bpf_name i)"
  by (simp add: bpf_name_def)

lemma bpf_name_length_mono: "i \<le> j \<Longrightarrow> length (bpf_name i) \<le> length (bpf_name j)"
  by (simp add: bpf_name_def length_show_nat_mono)

lemma bpf_name_short: "i < 10 ^ 7 \<Longrightarrow> length (bpf_name i) \<le> 16"
  using length_show_nat_le [of i 6] by (simp add: bpf_name_def)

lemma padded_bpf_name_inj:
  "i < 10 ^ 7 \<Longrightarrow> j < 10 ^ 7 \<Longrightarrow> padded (bpf_name i) = padded (bpf_name j) \<longleftrightarrow> i = j"
  using padded_inj [OF _ bpf_name_no_nul bpf_name_no_nul bpf_name_short bpf_name_short, of i j]
  by (auto simp: bpf_name_def)

section \<open>The trace of the worker\<close>

text \<open>The three calls for one program: the link has the two descriptors just returned.\<close>

definition bpf_block ::
    "'i prog_attr \<Rightarrow> perf_attr \<Rightarrow> nat \<Rightarrow> 'i bpf_trace \<Rightarrow> bool" where
  "bpf_block attr perf i b \<longleftrightarrow>
     (\<exists>pfd efd r. b =
        [Ev (Prog_load (attr\<lparr>pa_prog_name := padded (bpf_name i)\<rparr>), pfd),
         Ev (Perf_event_open perf 0 (- 1) (- 1) 0, efd),
         Ev (Link_create \<lparr>la_attach_type = BPF_PERF_EVENT, la_prog_fd = ucast pfd,
               la_target_fd = ucast efd\<rparr>, r)])"

lemma bpf_step_block:
  assumes "length s \<le> length (bpf_name i)"
  shows "\<exists>b. run_state (bpf_step k attr perf i (padded s)) w = (padded (bpf_name i), w @ b) \<and>
           bpf_block attr perf i b"
  by (simp add: bpf_step_def copy_name_padded [OF assms] bpf_block_def Let_def)

lemma bpf_load_all_blocks:
  assumes "sorted is" and "\<forall>i \<in> set is. length s \<le> length (bpf_name i)"
  shows "\<exists>name bs. run_state (bpf_load_all k attr perf is (padded s)) w = (name, w @ concat bs) \<and>
           list_all2 (bpf_block attr perf) is bs"
  using assms
proof (induction "is" arbitrary: s w)
  case Nil
  then show ?case by (auto intro: exI [of _ "[]"])
next
  case (Cons i "is")
  then obtain b where b: "run_state (bpf_step k attr perf i (padded s)) w = (padded (bpf_name i), w @ b)"
    "bpf_block attr perf i b" using bpf_step_block [of s i] by (metis list.set_intros(1))
  from Cons.prems have "\<forall>j \<in> set is. length (bpf_name i) \<le> length (bpf_name j)"
    by (auto intro: bpf_name_length_mono)
  with Cons.IH [of "bpf_name i" "w @ b"] Cons.prems(1) obtain name bs where
    "run_state (bpf_load_all k attr perf is (padded (bpf_name i))) (w @ b) = (name, (w @ b) @ concat bs)"
    "list_all2 (bpf_block attr perf) is bs" by auto
  with b show ?case by (intro exI [of _ name] exI [of _ "b # bs"]) simp
qed

definition bpf_prog_attr :: "'i list \<Rightarrow> 'i prog_attr" where
  "bpf_prog_attr insns =
     \<lparr>pa_prog_type = BPF_PROG_TYPE_TRACEPOINT, pa_insn_cnt = of_nat (length insns),
      pa_insns = insns, pa_license = ''GPL'' @ [CHR 0x00], pa_prog_name = replicate 16 (CHR 0x00)\<rparr>"

definition bpf_perf_attr :: "u64 \<Rightarrow> u32 \<Rightarrow> perf_attr" where
  "bpf_perf_attr tp sz = \<lparr>pe_config = tp, pe_size = sz, pe_type = PERF_TYPE_TRACEPOINT,
     pe_sample_type = PERF_SAMPLE_RAW, pe_inherit = 0\<rparr>"

lemma bpf_run_blocks:
  assumes "workload (bw_workload self) = Bpf tp n" and "ci bpf_program = Inr insns"
  shows "\<exists>bs. run_state (BpfWorker_run_payload ci sz k self) w = (Bpf_parked, w @ concat bs) \<and>
           list_all2 (bpf_block (bpf_prog_attr insns) (bpf_perf_attr tp sz)) [0..<unat n] bs"
proof -
  have "sorted [0..<unat n]" "\<forall>i \<in> set [0..<unat n]. length [] \<le> length (bpf_name i)" by simp_all
  from bpf_load_all_blocks [OF this, of k "bpf_prog_attr insns" "bpf_perf_attr tp sz" w]
  obtain name bs where
    "run_state (bpf_load_all k (bpf_prog_attr insns) (bpf_perf_attr tp sz) [0..<unat n] (padded [])) w =
       (name, w @ concat bs)"
    "list_all2 (bpf_block (bpf_prog_attr insns) (bpf_perf_attr tp sz)) [0..<unat n] bs" by blast
  with assms show ?thesis
    by (auto simp: BpfWorker_run_payload_def padded_Nil bpf_prog_attr_def bpf_perf_attr_def)
qed

fun loaded_name :: "('i bpf_call \<times> 64 word) entry \<Rightarrow> char list list" where
  "loaded_name (Ev (Prog_load a, r)) = [pa_prog_name a]"
| "loaded_name _ = []"

definition loaded_names :: "'i bpf_trace \<Rightarrow> char list list" where
  "loaded_names w = concat (map loaded_name w)"

lemma loaded_names_blocks:
  "list_all2 (bpf_block attr perf) is bs \<Longrightarrow>
     loaded_names (w @ concat bs) = loaded_names w @ map (\<lambda>i. padded (bpf_name i)) is"
proof (induction "is" bs arbitrary: w rule: list_all2_induct)
  case Nil
  then show ?case by simp
next
  case (Cons i "is" b bs)
  from Cons.IH [of "w @ b"] Cons.hyps(1) show ?case by (auto simp: bpf_block_def loaded_names_def)
qed

lemma bpf_run_names:
  assumes "workload (bw_workload self) = Bpf tp n" and "ci bpf_program = Inr insns"
    and "run_state (BpfWorker_run_payload ci sz k self) [] = (out, w)"
  shows "loaded_names w = map (\<lambda>i. padded (bpf_name i)) [0..<unat n]"
proof -
  obtain bs where "w = [] @ concat bs"
    "list_all2 (bpf_block (bpf_prog_attr insns) (bpf_perf_attr tp sz)) [0..<unat n] bs"
    using bpf_run_blocks [OF assms(1), of ci insns sz k "[]"] assms(2,3) by auto
  with loaded_names_blocks [of _ _ _ bs "[]"] show ?thesis by (simp add: loaded_names_def)
qed

lemma padded_terminated: "CHR 0x00 \<notin> set s \<Longrightarrow> CHR 0x00 \<in> set (padded s) \<longleftrightarrow> length s < 16"
  by (auto simp: padded_def set_replicate_conv_if dest: in_set_takeD)

lemma bpf_name_terminated: "CHR 0x00 \<in> set (padded (bpf_name i)) \<longleftrightarrow> i < 10 ^ 6"
proof -
  have seven: "length (show_nat (10 ^ 6)) = 7" by (simp add: show_nat.simps)
  have "length (bpf_name i) < 16 \<longleftrightarrow> i < 10 ^ 6"
    using length_show_nat_le [of i 5] length_show_nat_mono [of "10 ^ 6" i] seven
    by (cases "i < 10 ^ 6") (auto simp: bpf_name_def)
  then show ?thesis by (simp add: padded_terminated [OF bpf_name_no_nul])
qed

section \<open>Properties\<close>

abbreviation demo_bpf :: BpfWorker where
  "demo_bpf \<equiv> BpfWorker_new \<lparr>restart_interval = 10, per_core = False, workers = 1,
     workload = Bpf 306 3, duration = 0\<rparr> 0 0"

text \<open>
  C13: whatever the kernel answers, the worker loads \<open>nprogs\<close> programs, opens one
  event of the configured tracepoint for each, links the two descriptors it was
  given in the same iteration, and parks. Program \<open>i\<close> is named after \<open>i\<close>, cut
  to sixteen bytes, with no byte of an earlier name left in the buffer.
\<close>

theorem bpf_programs_loaded_and_linked:
  assumes "workload (bw_workload self) = Bpf tp n" and "ci bpf_program = Inr insns"
  shows "\<exists>bs. run_state (BpfWorker_run_payload ci sz k self) w = (Bpf_parked, w @ concat bs) \<and>
           list_all2 (bpf_block (bpf_prog_attr insns) (bpf_perf_attr tp sz)) [0..<unat n] bs"
  using assms by (rule bpf_run_blocks)

theorem bpf_programs_loaded_and_linked_witness:
  "\<exists>bs. run_state (BpfWorker_run_payload (\<lambda>p. Inr [take 8 p, drop 8 p] :: unit + u8 list list) 136
       (\<lambda>w c. of_nat (length w) + 3) demo_bpf) [] = (Bpf_parked, [] @ concat bs) \<and>
     list_all2 (bpf_block (bpf_prog_attr [take 8 bpf_program, drop 8 bpf_program])
       (bpf_perf_attr 306 136)) [0..<unat (3 :: u64)] bs"
  by (rule bpf_programs_loaded_and_linked) (simp_all add: BpfWorker_new_def)

text \<open>
  C35: up to ten million programs the loaded names are pairwise different. They all
  fit the buffer with a terminating zero exactly up to one million programs;
  from there on the name fills the sixteen bytes.
\<close>

theorem bpf_names_distinct:
  assumes "workload (bw_workload self) = Bpf tp n" and "ci bpf_program = Inr insns"
    and "run_state (BpfWorker_run_payload ci sz k self) [] = (out, w)" and "unat n \<le> 10 ^ 7"
  shows "length (loaded_names w) = unat n \<and> distinct (loaded_names w) \<and>
         (list_all (\<lambda>nm. CHR 0x00 \<in> set nm) (loaded_names w) \<longleftrightarrow> unat n \<le> 10 ^ 6)"
proof -
  note names = bpf_run_names [of self tp n ci insns, OF assms(1-3)]
  have "inj_on (\<lambda>i. padded (bpf_name i)) {0..<unat n}"
    using assms(4) padded_bpf_name_inj by (intro inj_onI) auto
  moreover have "list_all (\<lambda>nm. CHR 0x00 \<in> set nm) (loaded_names w) \<longleftrightarrow> (\<forall>i < unat n. i < 10 ^ 6)"
    by (auto simp: names list_all_iff bpf_name_terminated)
  moreover have "(\<forall>i < unat n. i < 10 ^ 6) \<longleftrightarrow> unat n \<le> 10 ^ 6"
    by (meson dual_order.strict_trans1 linorder_not_le order_less_irrefl)
  ultimately show ?thesis by (simp add: names distinct_map)
qed

theorem bpf_names_distinct_witness:
  "length (loaded_names (snd (run_state (BpfWorker_run_payload (\<lambda>p. Inr [p] :: unit + u8 list list) 136
     (\<lambda>w c. of_nat (length w) + 3) demo_bpf) []))) = 3"
  using bpf_names_distinct [of demo_bpf 306 3 "\<lambda>p. Inr [p] :: unit + u8 list list" "[bpf_program]" 136
    "\<lambda>w c. of_nat (length w) + 3"]
  by (simp add: BpfWorker_new_def prod_eq_iff)

end
