(* ===== verification/Net_Client.thy ===== *)
theory Net_Client
  imports Config Net_Addr "HOL-Library.AList"
begin

text \<open>
  The client of the network worker (\<open>start_client\<close> of
  \<open>src/worker/network.rs\<close>): the static connections, and the main loop that
  opens, serves and closes the dynamic ones. The TCP stack (smoltcp) is a
  parameter, a record of its operations; what the client relies on is the locale
  \<open>tcp_stack\<close>. Clock readings, random draws and the result of the wait are inputs
  of a loop iteration, the record \<open>tick\<close>.
\<close>

section \<open>The TCP stack\<close>

text \<open>
  \<open>'s\<close> is a socket, \<open>'ss\<close> a socket set and \<open>'i\<close> the interface with its
  device. A socket handle is its number. \<open>None\<close> is an error result of
  \<open>connect\<close>, \<open>recv\<close> and \<open>send_slice\<close>, and the documented panic of
  \<open>SocketSet::remove\<close> on a handle that is not in the set. \<open>ss_put\<close> stores a
  socket changed through \<open>iter_mut\<close>.
\<close>

record ('s, 'ss, 'i) smoltcp =
  ss_empty :: 'ss
  ss_items :: "'ss \<Rightarrow> (nat \<times> 's) list"
  ss_add :: "'s \<Rightarrow> 'ss \<Rightarrow> nat \<times> 'ss"
  ss_remove :: "nat \<Rightarrow> 'ss \<Rightarrow> 'ss option"
  ss_put :: "nat \<Rightarrow> 's \<Rightarrow> 'ss \<Rightarrow> 'ss"
  iface_poll :: "nat \<Rightarrow> 'i \<Rightarrow> 'ss \<Rightarrow> 'i \<times> 'ss"
  iface_poll_delay :: "nat \<Rightarrow> 'i \<Rightarrow> 'ss \<Rightarrow> nat option"
  tcp_new :: 's
  tcp_downcast :: "'s \<Rightarrow> bool"
  tcp_connect :: "'i \<Rightarrow> u32 \<times> u16 \<Rightarrow> u32 \<times> u16 \<Rightarrow> 's \<Rightarrow> 's option \<times> 'i"
  tcp_close :: "'s \<Rightarrow> 's"
  tcp_can_recv :: "'s \<Rightarrow> bool"
  tcp_recv :: "'s \<Rightarrow> 's option"
  tcp_may_send :: "'s \<Rightarrow> bool"
  tcp_send_slice :: "string \<Rightarrow> 's \<Rightarrow> 's option"

section \<open>State and inputs\<close>

record ('ss, 'i) client =
  iface :: 'i
  sockets :: 'ss
  dynamic_sockets :: "(nat \<times> (nat \<times> f64)) list"
  send_timer :: nat
  arrivals :: nat
  interval :: f64
  total_conns :: u32

text \<open>
  The readings of one iteration: \<open>SystemTime\<close> in nanoseconds, one reading per
  \<open>now\<close> and \<open>elapsed\<close> of the source (those inside the socket loop are per
  handle), and the random draws.
\<close>

record tick =
  now_poll :: nat
  now_arrival :: nat
  draw_lifetime :: f64
  draw_idx :: nat
  now_insert :: nat
  draw_interval :: f64
  now_reset :: nat
  now_life :: "nat \<Rightarrow> nat"
  now_send :: "nat \<Rightarrow> nat"
  now_resend :: "nat \<Rightarrow> nat"
  wait_ok :: "nat option \<Rightarrow> bool"

datatype exit = Panics panic | Returns WorkerError

fun lift_panic :: "panic + 'a \<Rightarrow> exit + 'a" where
  "lift_panic (Inl p) = Inl (Panics p)"
| "lift_panic (Inr a) = Inr a"

text \<open>\<open>timer.elapsed().unwrap().as_millis()\<close>: an error when the clock went back.\<close>

definition elapsed_ms :: "nat \<Rightarrow> nat \<Rightarrow> panic + nat" where
  "elapsed_ms now timer = (if now < timer then Inl Unwrap_Err else Inr ((now - timer) div 1000000))"

section \<open>The static connections\<close>

fun add_static :: "('s, 'ss, 'i) smoltcp \<Rightarrow> nat \<Rightarrow> 'ss \<Rightarrow> 'ss" where
  "add_static S 0 ss = ss"
| "add_static S (Suc n) ss = add_static S n (snd (ss_add S (tcp_new S) ss))"

fun connect_static ::
    "('s, 'ss, 'i) smoltcp \<Rightarrow> bool \<Rightarrow> u32 \<Rightarrow> u16 \<Rightarrow> u16 \<Rightarrow> nat \<Rightarrow> (nat \<times> 's) list \<Rightarrow>
     'i \<times> 'ss \<Rightarrow> panic + ('i \<times> 'ss)" where
  "connect_static S oc addr tport cpa i [] st = Inr st"
| "connect_static S oc addr tport cpa i ((h, s) # xs) (ifc, ss) =
     (if tcp_downcast S s then
        bind_res (get_local_addr_port oc addr cpa (of_nat i)) (\<lambda>local.
          case tcp_connect S ifc (addr, tport) local s of
            (None, ifc') \<Rightarrow> Inl Unwrap_Err
          | (Some s', ifc') \<Rightarrow>
              connect_static S oc addr tport cpa (Suc i) xs (ifc', ss_put S h s' ss))
      else connect_static S oc addr tport cpa i xs (ifc, ss))"

text \<open>
  The code before the loop. \<open>ifc\<close> is the interface \<open>setup_tuntap\<close> returned,
  \<open>t0\<close> and \<open>t1\<close> the two clock readings and \<open>d\<close> the first interval drawn.
\<close>

definition start_client_init ::
    "('s, 'ss, 'i) smoltcp \<Rightarrow> (f64 \<Rightarrow> bool) \<Rightarrow> bool \<Rightarrow> Workload \<Rightarrow> u32 \<Rightarrow> u16 \<Rightarrow> 'i \<Rightarrow>
     nat \<Rightarrow> nat \<Rightarrow> f64 \<Rightarrow> exit + ('ss, 'i) client" where
  "start_client_init S exp_ok oc w addr tport ifc t0 t1 d =
     (if \<not> is_Network w then Inl (Panics Unreachable)
      else let ss = add_static S (unat (connections_static w)) (ss_empty S)
        in lift_panic (
           bind_res (connect_static S oc addr tport (conns_per_addr w) 0 (ss_items S ss) (ifc, ss))
             (\<lambda>(ifc', ss').
           bind_res (exp_new exp_ok (arrival_rate w)) (\<lambda>_.
           Inr \<lparr>iface = ifc', sockets = ss', dynamic_sockets = [], send_timer = t0,
                arrivals = t1, interval = d, total_conns = connections_static w\<rparr>))))"

section \<open>One iteration of the loop\<close>

text \<open>The preemption of a connection when the limit is reached.\<close>

definition preempt_one ::
    "('s, 'ss, 'i) smoltcp \<Rightarrow> Workload \<Rightarrow> tick \<Rightarrow> 'ss \<Rightarrow> (nat \<times> (nat \<times> f64)) list \<Rightarrow>
     panic + ((nat \<times> (nat \<times> f64)) list \<times> nat list)" where
  "preempt_one S w t ss dyn =
     (if length dyn = unat (connections_dyn_max w) \<and> preempt w then
        if connections_dyn_max w = 0 then Inl Empty_range
        else if draw_idx t < length (ss_items S ss) then
          let key = fst (ss_items S ss ! draw_idx t) in Inr (AList.delete key dyn, [key])
        else Inl Unwrap_None
      else Inr (dyn, []))"

definition open_dynamic ::
    "('s, 'ss, 'i) smoltcp \<Rightarrow> Workload \<Rightarrow> u32 \<Rightarrow> u16 \<Rightarrow> tick \<Rightarrow> u32 \<times> u16 \<Rightarrow> 'i \<Rightarrow> 'ss \<Rightarrow>
     (nat \<times> (nat \<times> f64)) list \<Rightarrow> panic + ('i \<times> 'ss \<times> (nat \<times> (nat \<times> f64)) list)" where
  "open_dynamic S w addr tport t local ifc ss dyn =
     (if length dyn < unat (connections_dyn_max w) then
        case tcp_connect S ifc (addr, tport) local (tcp_new S) of
          (None, ifc') \<Rightarrow> Inl Unwrap_Err
        | (Some s, ifc') \<Rightarrow>
            let (h, ss') = ss_add S s ss
            in Inr (ifc', ss', AList.update h (now_insert t, draw_lifetime t) dyn)
      else Inr (ifc, ss, dyn))"

text \<open>The arrival branch: the new state and the handles to close.\<close>

definition arrival_due :: "tick \<Rightarrow> ('ss, 'i) client \<Rightarrow> nat \<Rightarrow> bool" where
  "arrival_due t c elapsed \<longleftrightarrow> scaled 128 1000 (interval c) < int elapsed"

definition arrival ::
    "('s, 'ss, 'i) smoltcp \<Rightarrow> (f64 \<Rightarrow> bool) \<Rightarrow> bool \<Rightarrow> Workload \<Rightarrow> u32 \<Rightarrow> u16 \<Rightarrow> tick \<Rightarrow>
     ('ss, 'i) client \<Rightarrow> panic + (('ss, 'i) client \<times> nat list)" where
  "arrival S exp_ok oc w addr tport t c =
     bind_res (elapsed_ms (now_arrival t) (arrivals c)) (\<lambda>elapsed.
     if \<not> arrival_due t c elapsed then Inr (c, [])
     else
       bind_res (add_oc oc (total_conns c) 1) (\<lambda>tot.
       bind_res (get_local_addr_port oc addr (conns_per_addr w) tot) (\<lambda>local.
       bind_res (exp_new exp_ok (departure_rate w)) (\<lambda>_.
       bind_res (preempt_one S w t (sockets c) (dynamic_sockets c)) (\<lambda>(dyn, close).
       bind_res (open_dynamic S w addr tport t local (iface c) (sockets c) dyn) (\<lambda>(ifc', ss', dyn').
       bind_res (exp_new exp_ok (arrival_rate w)) (\<lambda>_.
       Inr (c\<lparr>iface := ifc', sockets := ss', dynamic_sockets := dyn', total_conns := tot,
              interval := draw_interval t, arrivals := now_reset t\<rparr>, close))))))))"

text \<open>
  The sweep over all sockets: the socket set, the dynamic table, the send timer
  and the handles to close are updated socket by socket.
\<close>

type_synonym 'ss sweep = "'ss \<times> (nat \<times> (nat \<times> f64)) list \<times> nat \<times> nat list"

definition expired :: "tick \<Rightarrow> nat \<Rightarrow> (nat \<times> (nat \<times> f64)) list \<Rightarrow> panic + bool" where
  "expired t h dyn =
     (case map_of dyn h of
        None \<Rightarrow> Inr False
      | Some (timer, life) \<Rightarrow>
          map_res (\<lambda>ms. scaled 128 1000 life < int ms) (elapsed_ms (now_life t h) timer))"

definition receive :: "('s, 'ss, 'i) smoltcp \<Rightarrow> 's \<Rightarrow> panic + 's" where
  "receive S s = (if tcp_can_recv S s then expect_some Unwrap_Err (tcp_recv S s) else Inr s)"

definition send_hello ::
    "('s, 'ss, 'i) smoltcp \<Rightarrow> Workload \<Rightarrow> tick \<Rightarrow> nat \<Rightarrow> nat \<Rightarrow> 's \<Rightarrow> nat \<Rightarrow> panic + ('s \<times> nat)" where
  "send_hello S w t i h s timer =
     (if \<not> tcp_may_send S s then Inr (s, timer)
      else bind_res (elapsed_ms (now_send t h) timer) (\<lambda>ms.
        if unat (send_interval w) < ms mod 2 ^ 64 then
          map_res (\<lambda>s'. (s', now_resend t h))
            (expect_some (Expect ''cannot send'')
               (tcp_send_slice S (''hello '' @ show_nat i @ [CHR 0x0A]) s))
        else Inr (s, timer)))"

definition sweep_one ::
    "('s, 'ss, 'i) smoltcp \<Rightarrow> Workload \<Rightarrow> tick \<Rightarrow> nat \<Rightarrow> nat \<Rightarrow> 's \<Rightarrow> 'ss sweep \<Rightarrow>
     exit + 'ss sweep" where
  "sweep_one S w t i h s = (\<lambda>(ss, dyn, timer, close).
     if \<not> tcp_downcast S s then Inl (Returns Internal)
     else bind_res (lift_panic (expired t h dyn)) (\<lambda>gone.
       if gone then Inr (ss_put S h (tcp_close S s) ss, AList.delete h dyn, timer, close @ [h])
       else bind_res (lift_panic (receive S s)) (\<lambda>s1.
            bind_res (lift_panic (send_hello S w t i h s1 timer)) (\<lambda>(s2, timer').
            Inr (ss_put S h s2 ss, dyn, timer', close)))))"

fun sweep_all ::
    "('s, 'ss, 'i) smoltcp \<Rightarrow> Workload \<Rightarrow> tick \<Rightarrow> nat \<Rightarrow> (nat \<times> 's) list \<Rightarrow> 'ss sweep \<Rightarrow>
     exit + 'ss sweep" where
  "sweep_all S w t i [] st = Inr st"
| "sweep_all S w t i ((h, s) # xs) st =
     bind_res (sweep_one S w t i h s st) (sweep_all S w t (Suc i) xs)"

definition bad_handle :: panic where
  "bad_handle = Panic_msg ''handle does not refer to a valid socket''"

fun close_all ::
    "('s, 'ss, 'i) smoltcp \<Rightarrow> bool \<Rightarrow> nat list \<Rightarrow> 'ss \<Rightarrow> u32 \<Rightarrow> panic + ('ss \<times> u32)" where
  "close_all S oc [] ss tot = Inr (ss, tot)"
| "close_all S oc (h # hs) ss tot =
     bind_res (expect_some bad_handle (ss_remove S h ss)) (\<lambda>ss'.
     bind_res (sub_oc oc tot 1) (close_all S oc hs ss'))"

text \<open>
  The wait at the end, in milliseconds: \<open>poll_delay.min(Some(100)).or(Some(100))\<close>,
  with the order of \<open>Option\<close> in which \<open>None\<close> is the least element.
\<close>

definition wait_duration :: "nat option \<Rightarrow> nat option" where
  "wait_duration delay =
     (case (case delay of None \<Rightarrow> None | Some d \<Rightarrow> Some (min d 100)) of
        None \<Rightarrow> Some 100
      | Some d \<Rightarrow> Some d)"

definition client_step ::
    "('s, 'ss, 'i) smoltcp \<Rightarrow> (f64 \<Rightarrow> bool) \<Rightarrow> bool \<Rightarrow> Workload \<Rightarrow> u32 \<Rightarrow> u16 \<Rightarrow> tick \<Rightarrow>
     ('ss, 'i) client \<Rightarrow> exit + ('ss, 'i) client" where
  "client_step S exp_ok oc w addr tport t c =
     (let (ifc, ss) = iface_poll S (now_poll t) (iface c) (sockets c)
      in bind_res (lift_panic (arrival S exp_ok oc w addr tport t (c\<lparr>iface := ifc, sockets := ss\<rparr>)))
           (\<lambda>(c1, close0).
         bind_res (sweep_all S w t 0 (ss_items S (sockets c1))
                     (sockets c1, dynamic_sockets c1, send_timer c1, close0))
           (\<lambda>(ss', dyn, timer, close).
         bind_res (lift_panic (close_all S oc close ss' (total_conns c1))) (\<lambda>(ss'', tot).
         if wait_ok t (wait_duration (iface_poll_delay S (now_poll t) (iface c1) ss'')) then
           Inr (c1\<lparr>sockets := ss'', dynamic_sockets := dyn, send_timer := timer,
                   total_conns := tot\<rparr>)
         else Inl (Panics (Expect ''wait error''))))))"


section \<open>What the client relies on\<close>

definition ss_keys :: "('s, 'ss, 'i) smoltcp \<Rightarrow> 'ss \<Rightarrow> nat set" where
  "ss_keys S ss = fst ` set (ss_items S ss)"

text \<open>
  The documented behaviour of the socket set: handles are unique, \<open>add\<close> takes a
  handle not in use, \<open>remove\<close> panics exactly on a handle not in the set, and a
  poll keeps the set of handles.
\<close>

locale tcp_stack =
  fixes S :: "('s, 'ss, 'i) smoltcp"
  assumes empty_items: "ss_items S (ss_empty S) = []"
    and handles_unique: "distinct (map fst (ss_items S ss))"
    and add_fresh: "ss_add S s ss = (h, ss') \<Longrightarrow> h \<notin> ss_keys S ss"
    and add_keys: "ss_add S s ss = (h, ss') \<Longrightarrow> ss_keys S ss' = insert h (ss_keys S ss)"
    and remove_None: "ss_remove S h ss = None \<longleftrightarrow> h \<notin> ss_keys S ss"
    and remove_keys: "ss_remove S h ss = Some ss' \<Longrightarrow> ss_keys S ss' = ss_keys S ss - {h}"
    and put_keys: "h \<in> ss_keys S ss \<Longrightarrow> ss_keys S (ss_put S h s ss) = ss_keys S ss"
    and poll_keys: "iface_poll S n ifc ss = (ifc', ss') \<Longrightarrow> ss_keys S ss' = ss_keys S ss"
begin

lemma keys_finite [simp]: "finite (ss_keys S ss)"
  by (simp add: ss_keys_def)

lemma card_keys: "card (ss_keys S ss) = length (ss_items S ss)"
  using distinct_card [OF handles_unique [of ss]] by (simp add: ss_keys_def)

lemma keys_empty [simp]: "ss_keys S (ss_empty S) = {}"
  by (simp add: ss_keys_def empty_items)

lemma card_add: "ss_add S s ss = (h, ss') \<Longrightarrow> card (ss_keys S ss') = Suc (card (ss_keys S ss))"
  by (simp add: add_fresh add_keys)

lemma card_add_static: "card (ss_keys S (add_static S n ss)) = card (ss_keys S ss) + n"
proof (induction n arbitrary: ss)
  case (Suc n)
  obtain h ss' where "ss_add S (tcp_new S) ss = (h, ss')" by (cases "ss_add S (tcp_new S) ss")
  then show ?case using Suc card_add [of "tcp_new S" ss h ss'] by simp
qed simp

lemma keys_connect_static:
  assumes "connect_static S oc addr tport cpa i xs (ifc, ss) = Inr (ifc', ss')"
    and "fst ` set xs \<subseteq> ss_keys S ss"
  shows "ss_keys S ss' = ss_keys S ss"
  using assms
proof (induction xs arbitrary: i ifc ss)
  case Nil
  then show ?case by simp
next
  case (Cons x xs)
  obtain h s where x: "x = (h, s)" by (cases x)
  show ?case
  proof (cases "tcp_downcast S s")
    case True
    with Cons.prems(1) obtain loc where
      loc: "(case tcp_connect S ifc (addr, tport) loc s of (None, ifc1) \<Rightarrow> Inl Unwrap_Err
         | (Some s', ifc1) \<Rightarrow>
             connect_static S oc addr tport cpa (Suc i) xs (ifc1, ss_put S h s' ss)) = Inr (ifc', ss')"
      by (auto simp only: x connect_static.simps if_True bind_res_eq_Inr)
    obtain r ifc1 where "tcp_connect S ifc (addr, tport) loc s = (r, ifc1)"
      by (cases "tcp_connect S ifc (addr, tport) loc s")
    with loc obtain s' where
      "connect_static S oc addr tport cpa (Suc i) xs (ifc1, ss_put S h s' ss) = Inr (ifc', ss')"
      by (cases r) auto
    moreover have k: "ss_keys S (ss_put S h s' ss) = ss_keys S ss"
      using Cons.prems(2) by (simp add: x put_keys)
    ultimately show ?thesis using Cons.IH Cons.prems(2) by (simp add: k)
  next
    case False
    then show ?thesis using Cons.IH [of i ifc ss] Cons.prems by (simp add: x)
  qed
qed

end

section \<open>The invariant of the loop\<close>

definition dyn_keys :: "(nat \<times> 'b) list \<Rightarrow> nat set" where
  "dyn_keys dyn = fst ` set dyn"

text \<open>
  The dynamic table names distinct sockets of the set, no more than the limit;
  the handles to close are distinct sockets of the set and no longer dynamic; and
  the connection counter covers the static connections, the dynamic ones and
  those to close, and the size of the set.
\<close>

definition sweep_inv ::
    "('s, 'ss, 'i) smoltcp \<Rightarrow> nat \<Rightarrow> nat \<Rightarrow> u32 \<Rightarrow> 'ss \<Rightarrow> (nat \<times> (nat \<times> f64)) list \<Rightarrow>
     nat list \<Rightarrow> bool" where
  "sweep_inv S n dmax tot ss dyn close \<longleftrightarrow>
     distinct (map fst dyn) \<and> dyn_keys dyn \<subseteq> ss_keys S ss \<and>
     distinct close \<and> set close \<subseteq> ss_keys S ss \<and> set close \<inter> dyn_keys dyn = {} \<and>
     length dyn \<le> dmax \<and> n + length dyn + length close \<le> unat tot \<and>
     card (ss_keys S ss) \<le> unat tot"

definition client_inv :: "('s, 'ss, 'i) smoltcp \<Rightarrow> Workload \<Rightarrow> ('ss, 'i) client \<Rightarrow> bool" where
  "client_inv S w c \<longleftrightarrow>
     sweep_inv S (unat (connections_static w)) (unat (connections_dyn_max w)) (total_conns c)
       (sockets c) (dynamic_sockets c) []"

lemmas inv_defs = sweep_inv_def client_inv_def

lemma dyn_keys_Nil [simp]: "dyn_keys [] = {}"
  by (simp add: dyn_keys_def)

lemma dyn_keys_delete [simp]: "dyn_keys (AList.delete k al) = dyn_keys al - {k}"
  by (auto simp: dyn_keys_def AList.delete_eq image_iff)

lemma dyn_keys_update [simp]: "dyn_keys (AList.update k v al) = insert k (dyn_keys al)"
  by (auto simp: dyn_keys_def dom_map_of_conv_image_fst [symmetric] update_conv')

lemma length_delete:
  "distinct (map fst al) \<Longrightarrow>
     length (AList.delete k al) = (if k \<in> dyn_keys al then length al - 1 else length al)"
proof (induction al)
  case (Cons x al)
  then have "AList.delete (fst x) al = al" by (auto intro: delete_idem)
  with Cons show ?case by (cases al) (auto simp: dyn_keys_def)
qed simp

lemma length_update_fresh: "k \<notin> dyn_keys al \<Longrightarrow> length (AList.update k v al) = Suc (length al)"
  by (induction al) (auto simp: dyn_keys_def)

lemma unat_suc_total:
  assumes "(n :: u32) \<noteq> - 1"
  shows "unat (n + 1) = Suc (unat n)"
proof -
  have "unat n \<noteq> 4294967295"
    using assms word_unat_eq_iff [of n "- 1"] by (simp add: unat_minus_1_u32)
  with unat_bounds(2) [of n] have "unat n < 4294967295" by arith
  then have "unat n + unat (1 :: u32) < 2 ^ LENGTH(32)" by simp
  from add_oc_exact(2) [OF this] show ?thesis by simp
qed

lemma add_oc_counter:
  assumes "add_oc oc (n :: u32) 1 = Inr m" and "oc \<or> n \<noteq> - 1"
  shows "unat m = Suc (unat n)"
proof -
  have "n \<noteq> - 1"
    using assms by (auto simp: add_oc_def unat_minus_1_u32 split: if_splits)
  then show ?thesis using add_oc_eq_Inr [OF assms(1)] by (simp add: unat_suc_total)
qed

context tcp_stack
begin

lemma preempt_one_inv:
  assumes "sweep_inv S n dmax tot ss dyn []" and "dmax = unat (connections_dyn_max w)"
    and "preempt_one S w t ss dyn = Inr (dyn', close)" and "unat tot' = Suc (unat tot)"
  shows "sweep_inv S n dmax tot' ss dyn' close" "n + length dyn' < unat tot'"
    "length dyn' < dmax \<longrightarrow> n + length dyn' + length close < unat tot'"
    "length dyn' < dmax \<longrightarrow> card (ss_keys S ss) < unat tot'"
proof -
  have mem: "fst (ss_items S ss ! i) \<in> ss_keys S ss" if "i < length (ss_items S ss)" for i
    using that by (simp add: ss_keys_def)
  show "sweep_inv S n dmax tot' ss dyn' close" "n + length dyn' < unat tot'"
    "length dyn' < dmax \<longrightarrow> n + length dyn' + length close < unat tot'"
    "length dyn' < dmax \<longrightarrow> card (ss_keys S ss) < unat tot'"
    using assms
    by (auto simp: preempt_one_def sweep_inv_def Let_def length_delete mem distinct_delete
        split: if_splits)
qed

lemma open_dynamic_inv:
  assumes "sweep_inv S n dmax tot ss dyn close" and "dmax = unat (connections_dyn_max w)"
    and "length dyn < dmax \<longrightarrow> n + length dyn + length close < unat tot"
    and "length dyn < dmax \<longrightarrow> card (ss_keys S ss) < unat tot"
    and "open_dynamic S w addr tport t loc ifc ss dyn = Inr (ifc', ss', dyn')"
  shows "sweep_inv S n dmax tot ss' dyn' close"
proof (cases "length dyn < dmax")
  case True
  obtain r ifc1 where c: "tcp_connect S ifc (addr, tport) loc (tcp_new S) = (r, ifc1)"
    by (cases "tcp_connect S ifc (addr, tport) loc (tcp_new S)")
  with assms(2,5) True obtain s where r: "r = Some s"
    by (cases r) (auto simp: open_dynamic_def)
  obtain h ss1 where a: "ss_add S s ss = (h, ss1)" by (cases "ss_add S s ss")
  have eqs: "ss' = ss1" "dyn' = AList.update h (now_insert t, draw_lifetime t) dyn"
    using assms(2,5) True by (auto simp: open_dynamic_def c r a)
  have h: "h \<notin> ss_keys S ss" using a by (rule add_fresh)
  with assms(1) have "h \<notin> dyn_keys dyn" by (auto simp: sweep_inv_def)
  then show ?thesis
    using assms(1,3,4) True h
    by (auto simp: sweep_inv_def eqs add_keys [OF a] length_update_fresh distinct_update)
next
  case False
  with assms show ?thesis by (simp add: open_dynamic_def)
qed

lemma arrival_inv:
  assumes "client_inv S w c" and "oc \<or> total_conns c \<noteq> - 1"
    and "arrival S exp_ok oc w addr tport t c = Inr (c', close)"
  shows "sweep_inv S (unat (connections_static w)) (unat (connections_dyn_max w))
           (total_conns c') (sockets c') (dynamic_sockets c') close"
proof -
  obtain ms where ms: "elapsed_ms (now_arrival t) (arrivals c) = Inr ms"
    using assms(3) by (auto simp: arrival_def result_simps)
  show ?thesis
  proof (cases "arrival_due t c ms")
    case False
    with assms(1,3) ms show ?thesis by (auto simp: arrival_def client_inv_def)
  next
    case True
    with assms(3) ms obtain tot loc dyn ifc' ss' dyn' where
      tot: "add_oc oc (total_conns c) 1 = Inr tot"
      and pre: "preempt_one S w t (sockets c) (dynamic_sockets c) = Inr (dyn, close)"
      and dynn: "open_dynamic S w addr tport t loc (iface c) (sockets c) dyn = Inr (ifc', ss', dyn')"
      and c': "total_conns c' = tot" "sockets c' = ss'" "dynamic_sockets c' = dyn'"
      by (auto simp: arrival_def result_simps)
    note p = preempt_one_inv [OF assms(1) [unfolded client_inv_def] refl pre
        add_oc_counter [OF tot assms(2)]]
    show ?thesis
      using open_dynamic_inv [OF p(1) refl p(3,4) dynn] by (simp add: c')
  qed
qed

lemma sweep_one_inv:
  assumes "sweep_inv S n dmax tot ss dyn close" and "h \<in> ss_keys S ss"
    and "sweep_one S w t i h s (ss, dyn, tm, close) = Inr (ss', dyn', tm', close')"
  shows "sweep_inv S n dmax tot ss' dyn' close'" "ss_keys S ss' = ss_keys S ss"
    "length dyn' + length close' = length dyn + length close"
proof -
  from assms(3) obtain gone where g: "expired t h dyn = Inr gone"
    by (cases "expired t h dyn") (auto simp: sweep_one_def split: if_splits)
  have "sweep_inv S n dmax tot ss' dyn' close' \<and> ss_keys S ss' = ss_keys S ss \<and>
      length dyn' + length close' = length dyn + length close"
  proof (cases gone)
    case True
    with g have dk: "h \<in> dyn_keys dyn"
      by (force simp: expired_def dyn_keys_def split: option.splits dest!: map_of_SomeD)
    then obtain m where m: "length dyn = Suc m" by (cases dyn) (auto simp: dyn_keys_def)
    have "ss' = ss_put S h (tcp_close S s) ss" "dyn' = AList.delete h dyn"
      "close' = close @ [h]"
      using assms(3) g True by (auto simp: sweep_one_def split: if_splits)
    then show ?thesis
      using assms(1,2) dk by (auto simp: sweep_inv_def put_keys length_delete distinct_delete m)
  next
    case False
    with assms(3) g obtain s2 where "ss' = ss_put S h s2 ss" "dyn' = dyn" "close' = close"
      by (auto simp: sweep_one_def result_simps split: if_splits)
    then show ?thesis using assms(1,2) by (simp add: sweep_inv_def put_keys)
  qed
  then show "sweep_inv S n dmax tot ss' dyn' close'" "ss_keys S ss' = ss_keys S ss"
    "length dyn' + length close' = length dyn + length close" by blast+
qed

lemma sweep_all_inv:
  assumes "sweep_inv S n dmax tot ss dyn close" and "fst ` set xs \<subseteq> ss_keys S ss"
    and "sweep_all S w t i xs (ss, dyn, tm, close) = Inr (ss', dyn', tm', close')"
  shows "sweep_inv S n dmax tot ss' dyn' close' \<and> ss_keys S ss' = ss_keys S ss \<and>
      length dyn' + length close' = length dyn + length close"
  using assms
proof (induction xs arbitrary: i ss dyn tm close)
  case Nil
  then show ?case by simp
next
  case (Cons x xs)
  obtain h s where x: "x = (h, s)" by (cases x)
  with Cons.prems(3) obtain ss1 dyn1 tm1 close1 where
    one: "sweep_one S w t i h s (ss, dyn, tm, close) = Inr (ss1, dyn1, tm1, close1)"
    and rest: "sweep_all S w t (Suc i) xs (ss1, dyn1, tm1, close1) = Inr (ss', dyn', tm', close')"
    by (auto simp: result_simps)
  have "h \<in> ss_keys S ss" using Cons.prems(2) by (simp add: x)
  note o = sweep_one_inv [OF Cons.prems(1) this one]
  from Cons.IH [OF o(1) _ rest] Cons.prems(2) show ?case by (simp add: o(2,3))
qed

lemma close_all_inv:
  assumes "distinct close" and "set close \<subseteq> ss_keys S ss" and "length close \<le> unat tot"
  shows "\<exists>ss' tot'. close_all S oc close ss tot = Inr (ss', tot') \<and>
           ss_keys S ss' = ss_keys S ss - set close \<and> unat tot' = unat tot - length close"
  using assms
proof (induction close arbitrary: ss tot)
  case Nil
  then show ?case by simp
next
  case (Cons h hs)
  then have "ss_remove S h ss \<noteq> None" by (simp add: remove_None)
  then obtain ss1 where r: "ss_remove S h ss = Some ss1" by blast
  have one: "unat (1 :: u32) \<le> unat tot" using Cons.prems(3) by simp
  have "set hs \<subseteq> ss_keys S ss1" using Cons.prems(1,2) by (auto simp: remove_keys [OF r])
  moreover have "length hs \<le> unat (tot - 1)" using Cons.prems(3) sub_oc_exact(2) [OF one] by simp
  ultimately obtain ss' tot' where "close_all S oc hs ss1 (tot - 1) = Inr (ss', tot')"
    "ss_keys S ss' = ss_keys S ss1 - set hs" "unat tot' = unat (tot - 1) - length hs"
    using Cons.IH [of ss1 "tot - 1"] Cons.prems(1) by auto
  then show ?case
    using sub_oc_exact [OF one] by (auto simp: r remove_keys [OF r])
qed

lemma close_all_sweep:
  assumes "sweep_inv S n dmax tot ss dyn close"
  shows "\<exists>ss' tot'. close_all S oc close ss tot = Inr (ss', tot') \<and> sweep_inv S n dmax tot' ss' dyn [] \<and>
           card (ss_keys S ss') = card (ss_keys S ss) - length close \<and>
           unat tot' = unat tot - length close"
proof -
  from assms close_all_inv [of close ss tot oc] obtain ss' tot' where
    c: "close_all S oc close ss tot = Inr (ss', tot')"
    "ss_keys S ss' = ss_keys S ss - set close" "unat tot' = unat tot - length close"
    by (auto simp: sweep_inv_def)
  have card: "card (ss_keys S ss') = card (ss_keys S ss) - length close"
    using assms by (simp add: sweep_inv_def c(2) card_Diff_subset distinct_card)
  have "sweep_inv S n dmax tot' ss' dyn []"
    using assms by (auto simp: sweep_inv_def c card [unfolded c(2)])
  with c card show ?thesis by blast
qed

lemma client_step_split:
  assumes "iface_poll S (now_poll t) (iface c) (sockets c) = (ifc, ss)"
    and "client_step S exp_ok oc w addr tport t c = Inr c'"
  obtains c1 close0 ss' dyn tm close ss'' tot where
    "arrival S exp_ok oc w addr tport t (c\<lparr>iface := ifc, sockets := ss\<rparr>) = Inr (c1, close0)"
    "sweep_all S w t 0 (ss_items S (sockets c1))
       (sockets c1, dynamic_sockets c1, send_timer c1, close0) = Inr (ss', dyn, tm, close)"
    "close_all S oc close ss' (total_conns c1) = Inr (ss'', tot)"
    "c' = c1\<lparr>sockets := ss'', dynamic_sockets := dyn, send_timer := tm, total_conns := tot\<rparr>"
proof -
  from assms obtain c1 close0 ss' dyn tm close where
    1: "arrival S exp_ok oc w addr tport t (c\<lparr>iface := ifc, sockets := ss\<rparr>) = Inr (c1, close0)"
    and 2: "sweep_all S w t 0 (ss_items S (sockets c1))
       (sockets c1, dynamic_sockets c1, send_timer c1, close0) = Inr (ss', dyn, tm, close)"
    and 3: "bind_res (lift_panic (close_all S oc close ss' (total_conns c1))) (\<lambda>(ss'', tot).
         if wait_ok t (wait_duration (iface_poll_delay S (now_poll t) (iface c1) ss'')) then
           Inr (c1\<lparr>sockets := ss'', dynamic_sockets := dyn, send_timer := tm,
                   total_conns := tot\<rparr>)
         else Inl (Panics (Expect ''wait error''))) = Inr c'"
    by (cases "arrival S exp_ok oc w addr tport t (c\<lparr>iface := ifc, sockets := ss\<rparr>)")
      (auto simp: client_step_def bind_res_eq_Inr)
  from 3 obtain ss'' tot where "close_all S oc close ss' (total_conns c1) = Inr (ss'', tot)"
    "c' = c1\<lparr>sockets := ss'', dynamic_sockets := dyn, send_timer := tm, total_conns := tot\<rparr>"
    by (cases "close_all S oc close ss' (total_conns c1)") (auto split: if_splits)
  with 1 2 show thesis by (rule that)
qed

lemma client_inv_poll:
  assumes "client_inv S w c" and "iface_poll S n (iface c) (sockets c) = (ifc, ss)"
  shows "client_inv S w (c\<lparr>iface := ifc, sockets := ss\<rparr>)"
  using assms poll_keys [OF assms(2)] by (simp add: inv_defs)

lemma arrival_total:
  assumes "oc \<or> total_conns c \<noteq> - 1" and "arrival S exp_ok oc w addr tport t c = Inr (c', close)"
  shows "unat (total_conns c') \<le> Suc (unat (total_conns c))"
  using assms by (auto simp: arrival_def result_simps dest: add_oc_counter split: if_splits)

lemma client_step_inv:
  assumes "client_inv S w c" and "oc \<or> total_conns c \<noteq> - 1"
    and "client_step S exp_ok oc w addr tport t c = Inr c'"
  shows "client_inv S w c' \<and> unat (total_conns c') \<le> Suc (unat (total_conns c))"
proof -
  obtain ifc ss where p: "iface_poll S (now_poll t) (iface c) (sockets c) = (ifc, ss)"
    by (cases "iface_poll S (now_poll t) (iface c) (sockets c)")
  note i0 = client_inv_poll [OF assms(1) p]
  from p assms(3) show ?thesis
  proof (rule client_step_split)
    fix c1 close0 ss' dyn tm close ss'' tot
    assume st: "arrival S exp_ok oc w addr tport t (c\<lparr>iface := ifc, sockets := ss\<rparr>) = Inr (c1, close0)"
      "sweep_all S w t 0 (ss_items S (sockets c1))
         (sockets c1, dynamic_sockets c1, send_timer c1, close0) = Inr (ss', dyn, tm, close)"
      "close_all S oc close ss' (total_conns c1) = Inr (ss'', tot)"
      "c' = c1\<lparr>sockets := ss'', dynamic_sockets := dyn, send_timer := tm, total_conns := tot\<rparr>"
    have i1: "sweep_inv S (unat (connections_static w)) (unat (connections_dyn_max w))
        (total_conns c1) (sockets c1) (dynamic_sockets c1) close0"
      using arrival_inv [OF i0 _ st(1)] assms(2) by simp
    from sweep_all_inv [OF i1 _ st(2)]
    have "sweep_inv S (unat (connections_static w)) (unat (connections_dyn_max w))
        (total_conns c1) ss' dyn close" by (simp add: ss_keys_def)
    moreover have "unat (total_conns c1) \<le> Suc (unat (total_conns c))"
      using arrival_total [OF _ st(1)] assms(2) by simp
    ultimately show ?thesis
      using close_all_sweep [of _ _ "total_conns c1" ss' dyn close oc] st(3,4) by (fastforce simp: client_inv_def)
  qed
qed

lemma start_client_inv:
  assumes "start_client_init S exp_ok oc w addr tport ifc t0 t1 d = Inr c"
  shows "client_inv S w c" "length (ss_items S (sockets c)) = unat (connections_static w)"
    "total_conns c = connections_static w" "dynamic_sockets c = []"
proof -
  let ?ss = "add_static S (unat (connections_static w)) (ss_empty S)"
  from assms obtain ifc' ss' where
    con: "connect_static S oc addr tport (conns_per_addr w) 0 (ss_items S ?ss) (ifc, ?ss) = Inr (ifc', ss')"
    and c: "sockets c = ss'" "dynamic_sockets c = []" "total_conns c = connections_static w"
    by (cases "connect_static S oc addr tport (conns_per_addr w) 0 (ss_items S ?ss) (ifc, ?ss)";
        cases "exp_new exp_ok (arrival_rate w)")
      (auto simp: start_client_init_def Let_def split: if_splits)
  have "ss_keys S ss' = ss_keys S ?ss"
    using keys_connect_static [OF con] by (simp add: ss_keys_def)
  then have card: "card (ss_keys S ss') = unat (connections_static w)"
    by (simp add: card_add_static)
  then show "client_inv S w c" by (simp add: inv_defs c)
  show "length (ss_items S (sockets c)) = unat (connections_static w)"
    using card card_keys [of ss'] by (simp add: c(1))
  show "total_conns c = connections_static w" "dynamic_sockets c = []" by (simp_all add: c)
qed

end

section \<open>Reachable states\<close>

text \<open>
  The states of the loop: the state before it, and what iterations lead to while
  the connection counter is below its maximum (a build with overflow checks would
  panic there).
\<close>

inductive client_reach ::
    "('s, 'ss, 'i) smoltcp \<Rightarrow> (f64 \<Rightarrow> bool) \<Rightarrow> bool \<Rightarrow> Workload \<Rightarrow> u32 \<Rightarrow> u16 \<Rightarrow>
     ('ss, 'i) client \<Rightarrow> bool" for S exp_ok oc w addr tport where
  start: "start_client_init S exp_ok oc w addr tport ifc t0 t1 d = Inr c \<Longrightarrow>
     client_reach S exp_ok oc w addr tport c"
| step: "client_reach S exp_ok oc w addr tport c \<Longrightarrow> oc \<or> total_conns c \<noteq> - 1 \<Longrightarrow>
     client_step S exp_ok oc w addr tport t c = Inr c' \<Longrightarrow>
     client_reach S exp_ok oc w addr tport c'"

context tcp_stack
begin

lemma client_reach_inv: "client_reach S exp_ok oc w addr tport c \<Longrightarrow> client_inv S w c"
  by (induction rule: client_reach.induct) (auto intro: start_client_inv dest: client_step_inv)

lemma preempt_one_panics:
  assumes "client_inv S w c" and "connections_dyn_max w \<noteq> 0 \<longrightarrow> draw_idx t < unat (connections_dyn_max w)"
    and "preempt_one S w t (sockets c) (dynamic_sockets c) = Inl p"
  shows "p = Empty_range \<and> preempt w \<and> connections_dyn_max w = 0"
proof -
  have "card (dyn_keys (dynamic_sockets c)) = length (dynamic_sockets c)"
    using assms(1) distinct_card [of "map fst (dynamic_sockets c)"]
    by (simp add: inv_defs dyn_keys_def)
  moreover have "card (dyn_keys (dynamic_sockets c)) \<le> card (ss_keys S (sockets c))"
    using assms(1) by (intro card_mono) (simp_all add: inv_defs)
  ultimately have "length (dynamic_sockets c) \<le> length (ss_items S (sockets c))"
    by (simp add: card_keys)
  then show ?thesis using assms(2,3) by (auto simp: preempt_one_def Let_def split: if_splits)
qed

end

section \<open>Which panics an iteration can raise\<close>

lemma elapsed_ms_Inl: "elapsed_ms a b = Inl p \<Longrightarrow> p = Unwrap_Err"
  by (auto simp: elapsed_ms_def split: if_splits)

lemma exp_new_Inl: "exp_new f r = Inl p \<Longrightarrow> p = Unwrap_Err"
  by (auto simp: exp_new_def split: if_splits)

lemma add_oc_Inl: "add_oc oc a b = Inl p \<Longrightarrow> p = Arith_overflow"
  by (auto simp: add_oc_def split: if_splits)

lemma get_local_addr_port_Inl:
  "get_local_addr_port oc addr c i = Inl p \<Longrightarrow> p \<in> {Div_by_zero, Arith_overflow}"
  by (auto simp: get_local_addr_port_def Let_def result_simps dest: add_oc_Inl split: if_splits)

lemma open_dynamic_Inl: "open_dynamic S w addr tport t loc ifc ss dyn = Inl p \<Longrightarrow> p = Unwrap_Err"
  by (auto simp: open_dynamic_def Let_def split: if_splits prod.split_asm option.split_asm)

lemmas panic_sources =
  elapsed_ms_Inl exp_new_Inl add_oc_Inl open_dynamic_Inl

lemma lift_panic_eq [result_simps]:
  "lift_panic r = Inl e \<longleftrightarrow> (\<exists>p. r = Inl p \<and> e = Panics p)"
  "lift_panic r = Inr a \<longleftrightarrow> r = Inr a"
  by (cases r; auto)+

lemma arrival_Inl:
  assumes "arrival S exp_ok oc w addr tport t c = Inl p"
  shows "p \<in> {Unwrap_Err, Arith_overflow, Div_by_zero} \<or>
         preempt_one S w t (sockets c) (dynamic_sockets c) = Inl p"
  using assms
  by (auto simp: arrival_def result_simps dest: panic_sources get_local_addr_port_Inl
      split: if_splits)

lemma sweep_one_Inl:
  assumes "sweep_one S w t i h s st = Inl (Panics p)"
  shows "p \<in> {Unwrap_Err, Expect ''cannot send''}"
proof -
  have "expired t h dyn = Inl p \<Longrightarrow> p = Unwrap_Err" for dyn
    by (auto simp: expired_def result_simps dest: elapsed_ms_Inl split: option.splits)
  moreover have "receive S s = Inl p \<Longrightarrow> p = Unwrap_Err"
    by (auto simp: receive_def result_simps split: if_splits)
  moreover have "send_hello S w t i h s' tm = Inl p \<Longrightarrow> p \<in> {Unwrap_Err, Expect ''cannot send''}" for s' tm
    by (auto simp: send_hello_def result_simps dest: elapsed_ms_Inl split: if_splits)
  ultimately show ?thesis using assms
    by (cases st) (auto simp: sweep_one_def result_simps split: if_splits)
qed

lemma sweep_all_Inl:
  "sweep_all S w t i xs st = Inl (Panics p) \<Longrightarrow> p \<in> {Unwrap_Err, Expect ''cannot send''}"
  by (induction xs arbitrary: i st) (auto simp: result_simps dest: sweep_one_Inl)

context tcp_stack
begin

lemma client_step_panics:
  assumes "client_inv S w c" and "oc \<or> total_conns c \<noteq> - 1"
    and "connections_dyn_max w \<noteq> 0 \<longrightarrow> draw_idx t < unat (connections_dyn_max w)"
    and "client_step S exp_ok oc w addr tport t c = Inl (Panics p)"
  shows "p \<in> {Unwrap_Err, Arith_overflow, Div_by_zero, Expect ''cannot send'', Expect ''wait error''} \<or>
         p = Empty_range \<and> preempt w \<and> connections_dyn_max w = 0"
proof -
  obtain ifc ss where po: "iface_poll S (now_poll t) (iface c) (sockets c) = (ifc, ss)"
    by (cases "iface_poll S (now_poll t) (iface c) (sockets c)")
  define c0 where "c0 = c\<lparr>iface := ifc, sockets := ss\<rparr>"
  have i0: "client_inv S w c0" unfolding c0_def by (rule client_inv_poll [OF assms(1) po])
  show ?thesis
  proof (cases "arrival S exp_ok oc w addr tport t c0")
    case (Inl e)
    with assms(4) po have "e = p" by (simp add: client_step_def c0_def)
    with arrival_Inl [OF Inl] preempt_one_panics [OF i0 assms(3)] show ?thesis by auto
  next
    case (Inr r)
    obtain c1 close0 where r: "r = (c1, close0)" by (cases r)
    have i1: "sweep_inv S (unat (connections_static w)) (unat (connections_dyn_max w))
        (total_conns c1) (sockets c1) (dynamic_sockets c1) close0"
      using arrival_inv [OF i0 _ Inr [unfolded r]] assms(2) by (simp add: c0_def)
    let ?sw = "sweep_all S w t 0 (ss_items S (sockets c1))
        (sockets c1, dynamic_sockets c1, send_timer c1, close0)"
    show ?thesis
    proof (cases ?sw)
      case (Inl e)
      with assms(4) po Inr r have "e = Panics p" by (simp add: client_step_def c0_def)
      with sweep_all_Inl [OF Inl [unfolded this]] Inl show ?thesis by auto
    next
      case s: (Inr q)
      obtain ss' dyn tm close where q: "q = (ss', dyn, tm, close)" by (cases q)
      from sweep_all_inv [OF i1 _ s [unfolded q]]
      have "sweep_inv S (unat (connections_static w)) (unat (connections_dyn_max w))
          (total_conns c1) ss' dyn close" by (simp add: ss_keys_def)
      from close_all_sweep [OF this, of oc] obtain ss'' tot where
        "close_all S oc close ss' (total_conns c1) = Inr (ss'', tot)" by blast
      with assms(4) po Inr r s q show ?thesis by (auto simp: client_step_def c0_def split: if_splits)
    qed
  qed
qed

end

end
