(* ===== verification/Net_Client_Props.thy ===== *)
theory Net_Client_Props
  imports Net_Client
begin

text \<open>
  The properties of the network client: its invariant over every reachable state,
  the panics its own bookkeeping cannot raise, how far the connection counter can
  be trusted, and which local endpoints can meet. A slab of sockets with reuse of
  free slots shows that the assumptions on the TCP stack can hold.
\<close>

section \<open>How the counter and the set of sockets move\<close>

context tcp_stack
begin

lemma open_dynamic_card:
  assumes "open_dynamic S w addr tport t loc ifc ss dyn = Inr (ifc', ss', dyn')"
  shows "card (ss_keys S ss') = card (ss_keys S ss) + (if length dyn < unat (connections_dyn_max w) then 1 else 0)"
proof (cases "length dyn < unat (connections_dyn_max w)")
  case True
  obtain r ifc1 where c: "tcp_connect S ifc (addr, tport) loc (tcp_new S) = (r, ifc1)"
    by (cases "tcp_connect S ifc (addr, tport) loc (tcp_new S)")
  with assms True obtain s where r: "r = Some s" by (cases r) (auto simp: open_dynamic_def)
  obtain h ss1 where a: "ss_add S s ss = (h, ss1)" by (cases "ss_add S s ss")
  with assms True c r have "ss' = ss1" by (simp add: open_dynamic_def)
  with a True show ?thesis by (simp add: card_add)
next
  case False
  with assms show ?thesis by (simp add: open_dynamic_def)
qed

lemma arrival_drift:
  assumes "oc \<or> total_conns c \<noteq> - 1"
    and "arrival S exp_ok oc w addr tport t c = Inr (c1, close)"
  shows "card (ss_keys S (sockets c1)) + unat (total_conns c) \<le>
           card (ss_keys S (sockets c)) + unat (total_conns c1)"
    and "length (dynamic_sockets c) < unat (connections_dyn_max w) \<Longrightarrow>
         card (ss_keys S (sockets c1)) + unat (total_conns c) =
           card (ss_keys S (sockets c)) + unat (total_conns c1)"
proof -
  have "card (ss_keys S (sockets c1)) + unat (total_conns c) \<le>
           card (ss_keys S (sockets c)) + unat (total_conns c1) \<and>
     (length (dynamic_sockets c) < unat (connections_dyn_max w) \<longrightarrow>
         card (ss_keys S (sockets c1)) + unat (total_conns c) =
           card (ss_keys S (sockets c)) + unat (total_conns c1))"
  proof (cases "sockets c1 = sockets c \<and> total_conns c1 = total_conns c")
    case True
    then show ?thesis by simp
  next
    case False
    with assms(2) obtain tot loc dyn ifc' ss' dyn' where
      tot: "add_oc oc (total_conns c) 1 = Inr tot"
      and pre: "preempt_one S w t (sockets c) (dynamic_sockets c) = Inr (dyn, close)"
      and op: "open_dynamic S w addr tport t loc (iface c) (sockets c) dyn = Inr (ifc', ss', dyn')"
      and c': "total_conns c1 = tot" "sockets c1 = ss'"
      by (auto simp: arrival_def result_simps split: if_splits)
    have "length (dynamic_sockets c) < unat (connections_dyn_max w) \<Longrightarrow> dyn = dynamic_sockets c"
      using pre by (auto simp: preempt_one_def)
    with open_dynamic_card [OF op] add_oc_counter [OF tot assms(1)] show ?thesis
      by (auto simp: c')
  qed
  then show "card (ss_keys S (sockets c1)) + unat (total_conns c) \<le>
           card (ss_keys S (sockets c)) + unat (total_conns c1)"
    and "length (dynamic_sockets c) < unat (connections_dyn_max w) \<Longrightarrow>
         card (ss_keys S (sockets c1)) + unat (total_conns c) =
           card (ss_keys S (sockets c)) + unat (total_conns c1)" by auto
qed

lemma client_step_drift:
  assumes "client_inv S w c" and "oc \<or> total_conns c \<noteq> - 1"
    and "client_step S exp_ok oc w addr tport t c = Inr c'"
  shows "length (ss_items S (sockets c')) + unat (total_conns c) \<le>
           length (ss_items S (sockets c)) + unat (total_conns c')"
    and "length (dynamic_sockets c) < unat (connections_dyn_max w) \<Longrightarrow>
         length (ss_items S (sockets c')) + unat (total_conns c) =
           length (ss_items S (sockets c)) + unat (total_conns c')"
proof -
  obtain ifc ss where po: "iface_poll S (now_poll t) (iface c) (sockets c) = (ifc, ss)"
    by (cases "iface_poll S (now_poll t) (iface c) (sockets c)")
  define c0 where "c0 = c\<lparr>iface := ifc, sockets := ss\<rparr>"
  have i0: "client_inv S w c0" unfolding c0_def by (rule client_inv_poll [OF assms(1) po])
  have k0: "ss_keys S (sockets c0) = ss_keys S (sockets c)" "total_conns c0 = total_conns c"
    "dynamic_sockets c0 = dynamic_sockets c"
    using poll_keys [OF po] by (simp_all add: c0_def)
  obtain c1 close0 ss' dyn tm close ss'' tot where
    st: "arrival S exp_ok oc w addr tport t c0 = Inr (c1, close0)"
      "sweep_all S w t 0 (ss_items S (sockets c1))
         (sockets c1, dynamic_sockets c1, send_timer c1, close0) = Inr (ss', dyn, tm, close)"
      "close_all S oc close ss' (total_conns c1) = Inr (ss'', tot)"
      "c' = c1\<lparr>sockets := ss'', dynamic_sockets := dyn, send_timer := tm, total_conns := tot\<rparr>"
    using client_step_split [OF po assms(3)] unfolding c0_def by blast
  have i1: "sweep_inv S (unat (connections_static w)) (unat (connections_dyn_max w))
      (total_conns c1) (sockets c1) (dynamic_sockets c1) close0"
    using arrival_inv [OF i0 _ st(1)] assms(2) by (simp add: k0)
  from sweep_all_inv [OF i1 _ st(2)] have i2: "sweep_inv S (unat (connections_static w))
      (unat (connections_dyn_max w)) (total_conns c1) ss' dyn close"
    and k1: "ss_keys S ss' = ss_keys S (sockets c1)" by (simp_all add: ss_keys_def)
  have le: "length close \<le> card (ss_keys S ss')" "length close \<le> unat (total_conns c1)"
    using i2 card_mono [of "ss_keys S ss'" "set close"] by (auto simp: sweep_inv_def distinct_card)
  from close_all_sweep [OF i2, of oc] st(3) have
    fin: "card (ss_keys S ss'') = card (ss_keys S ss') - length close"
    "unat tot = unat (total_conns c1) - length close" by auto
  have ad: "oc \<or> total_conns c0 \<noteq> - 1" using assms(2) by (simp add: k0)
  show "length (ss_items S (sockets c')) + unat (total_conns c) \<le>
           length (ss_items S (sockets c)) + unat (total_conns c')"
    using arrival_drift(1) [OF ad st(1)] le fin by (simp add: st(4) card_keys [symmetric] k0 k1)
  show "length (ss_items S (sockets c')) + unat (total_conns c) =
           length (ss_items S (sockets c)) + unat (total_conns c')"
    if "length (dynamic_sockets c) < unat (connections_dyn_max w)"
    using arrival_drift(2) [OF ad st(1)] that le fin
    by (simp add: st(4) card_keys [symmetric] k0 k1)
qed

end

section \<open>A slab of sockets\<close>

text \<open>
  A socket is its local endpoint, once connected. A handle is a slot number;
  adding takes the first free slot. Nothing is ever received or sent.
\<close>

type_synonym slab = "(u32 \<times> u16) option option list"

definition slab_items :: "slab \<Rightarrow> (nat \<times> (u32 \<times> u16) option) list" where
  "slab_items xs = [(i, s). (i, Some s) \<leftarrow> enumerate 0 xs]"

definition slab_slot :: "slab \<Rightarrow> nat" where
  "slab_slot xs = length (takeWhile (\<lambda>x. x \<noteq> None) xs)"

definition slab_add :: "(u32 \<times> u16) option \<Rightarrow> slab \<Rightarrow> nat \<times> slab" where
  "slab_add s xs =
     (let i = slab_slot xs in (i, if i < length xs then xs[i := Some s] else xs @ [Some s]))"

definition slab_remove :: "nat \<Rightarrow> slab \<Rightarrow> slab option" where
  "slab_remove h xs = (if h < length xs \<and> xs ! h \<noteq> None then Some (xs[h := None]) else None)"

definition slab_stack :: "((u32 \<times> u16) option, slab, unit) smoltcp" where
  "slab_stack = \<lparr>ss_empty = [], ss_items = slab_items, ss_add = slab_add,
     ss_remove = slab_remove, ss_put = (\<lambda>h s xs. xs[h := Some s]),
     iface_poll = (\<lambda>_ i ss. (i, ss)), iface_poll_delay = (\<lambda>_ _ _. None),
     tcp_new = None, tcp_downcast = (\<lambda>_. True),
     tcp_connect = (\<lambda>i _ local _. (Some (Some local), i)), tcp_close = (\<lambda>s. s),
     tcp_can_recv = (\<lambda>_. False), tcp_recv = Some, tcp_may_send = (\<lambda>_. False),
     tcp_send_slice = (\<lambda>_. Some)\<rparr>"

lemma slab_items_filter:
  "slab_items xs = map (\<lambda>(i, x). (i, the x)) (filter (\<lambda>(i, x). x \<noteq> None) (enumerate 0 xs))"
proof -
  have "[(i, s). (i, Some s) \<leftarrow> ys] = map (\<lambda>(i, x). (i, the x)) (filter (\<lambda>(i, x). x \<noteq> None) ys)"
    for ys :: "(nat \<times> (u32 \<times> u16) option option) list"
    by (induction ys) (auto split: option.splits)
  then show ?thesis by (simp add: slab_items_def)
qed

lemma slab_keys: "fst ` set (slab_items xs) = {i. i < length xs \<and> xs ! i \<noteq> None}"
  by (force simp: slab_items_filter in_set_enumerate_eq image_iff)

lemma slab_items_distinct: "distinct (map fst (slab_items xs))"
proof -
  have "map fst (slab_items xs) = map fst (filter (\<lambda>(i, x). x \<noteq> None) (enumerate 0 xs))"
    by (auto simp: slab_items_filter)
  also have "distinct \<dots>" by (rule distinct_map_filter) simp
  finally show ?thesis .
qed

lemma slab_items_Nil [simp]: "slab_items [] = []"
  by (simp add: slab_items_def)

lemma slab_slot_free:
  "slab_slot xs \<le> length xs" "slab_slot xs < length xs \<Longrightarrow> xs ! slab_slot xs = None"
  using nth_length_takeWhile [of "\<lambda>x. x \<noteq> None" xs]
  by (auto simp: slab_slot_def length_takeWhile_le)

interpretation slab_tcp: tcp_stack slab_stack
proof unfold_locales
  fix s and ss ss' :: slab and h
  assume "ss_add slab_stack s ss = (h, ss')"
  then have eq: "h = slab_slot ss"
    "ss' = (if slab_slot ss < length ss then ss[slab_slot ss := Some s] else ss @ [Some s])"
    by (auto simp: slab_stack_def slab_add_def Let_def)
  show "h \<notin> ss_keys slab_stack ss"
    using slab_slot_free [of ss]
    by (cases "slab_slot ss < length ss") (auto simp: ss_keys_def slab_stack_def slab_keys eq)
  show "ss_keys slab_stack ss' = insert h (ss_keys slab_stack ss)"
    using slab_slot_free [of ss]
    by (cases "slab_slot ss < length ss")
      (auto simp: ss_keys_def slab_stack_def slab_keys eq nth_list_update nth_append split: if_splits)
qed (auto simp: slab_stack_def ss_keys_def slab_keys slab_items_distinct slab_remove_def
      nth_list_update split: if_splits)

section \<open>A run of the client\<close>

definition demo_workload :: Workload where
  "demo_workload = Network False 0x0A000001 8080 (Fin 1) (Fin 1) 0 10 100 100 False"

text \<open>An iteration at time \<open>a\<close>: every clock reading is \<open>a\<close>, a new connection gets the lifetime \<open>l\<close>.\<close>

definition net_tick :: "nat \<Rightarrow> f64 \<Rightarrow> tick" where
  "net_tick a l = \<lparr>now_poll = a, now_arrival = a, draw_lifetime = l, draw_idx = 0,
     now_insert = a, draw_interval = Fin 0, now_reset = a, now_life = (\<lambda>_. a),
     now_send = (\<lambda>_. a), now_resend = (\<lambda>_. a), wait_ok = (\<lambda>_. True)\<rparr>"

definition demo_state :: "slab \<Rightarrow> (nat \<times> (nat \<times> f64)) list \<Rightarrow> nat \<Rightarrow> u32 \<Rightarrow> (slab, unit) client" where
  "demo_state ss dyn a n = \<lparr>iface = (), sockets = ss, dynamic_sockets = dyn, send_timer = 0,
     arrivals = a, interval = Fin 0, total_conns = n\<rparr>"

abbreviation "demo_step t \<equiv> client_step slab_stack (\<lambda>_. True) True demo_workload 0x0A000001 8080 t"
abbreviation "demo_reach \<equiv> client_reach slab_stack (\<lambda>_. True) True demo_workload 0x0A000001 8080"

lemma scaled_zero: "scaled w k (Fin 0) = 0"
proof -
  have "\<lfloor>1 / 2 :: rat\<rfloor> = 0" by (simp add: floor_eq_iff)
  then show ?thesis by (simp add: scaled_def f64_of_rat_def half_even_def ulp_def)
qed

lemma scaled_infinity: "0 < k \<Longrightarrow> scaled w k (Infinity False) = 2 ^ w - 1"
  by (simp add: scaled_def)

lemmas demo_defs = demo_workload_def net_tick_def demo_state_def client_step_def arrival_def
  arrival_due_def elapsed_ms_def exp_new_def preempt_one_def open_dynamic_def slab_stack_def
  slab_add_def slab_slot_def slab_items_def slab_remove_def sweep_one_def expired_def receive_def
  send_hello_def get_local_addr_port_def add_oc_def sub_oc_def scaled_zero scaled_infinity Let_def

lemma demo_start: "demo_reach (demo_state [] [] 0 0)"
  by (rule client_reach.start [where ifc = "()" and ?t0.0 = 0 and ?t1.0 = 0 and d = "Fin 0"])
    (simp add: start_client_init_def demo_defs)

lemma demo_step1: "demo_step (net_tick 2000000 (Fin 0)) (demo_state [] [] 0 0) =
    Inr (demo_state [Some (Some (0x0A000002, 49153))] [(0, (2000000, Fin 0))] 2000000 1)"
  by (simp add: demo_defs)

lemma demo_step2: "demo_step (net_tick 4000000 (Infinity False))
      (demo_state [Some (Some (0x0A000002, 49153))] [(0, (2000000, Fin 0))] 2000000 1) =
    Inr (demo_state [None, Some (Some (0x0A000002, 49154))] [(1, (4000000, Infinity False))] 4000000 1)"
  by (simp add: demo_defs)

lemma demo_step3: "demo_step (net_tick 6000000 (Infinity False))
      (demo_state [None, Some (Some (0x0A000002, 49154))] [(1, (4000000, Infinity False))] 4000000 1) =
    Inr (demo_state [Some (Some (0x0A000002, 49154)), Some (Some (0x0A000002, 49154))]
      [(1, (4000000, Infinity False)), (0, (6000000, Infinity False))] 6000000 2)"
  by (simp add: demo_defs)

lemmas demo_reach1 = client_reach.step [OF demo_start disjI1 [OF TrueI] demo_step1]
lemmas demo_reach2 = client_reach.step [OF demo_reach1 disjI1 [OF TrueI] demo_step2]
lemmas demo_reach3 = client_reach.step [OF demo_reach2 disjI1 [OF TrueI] demo_step3]

section \<open>Properties\<close>

text \<open>
  C2: in every reachable state of the client loop the dynamic connections are
  distinct sockets of the socket set and no more than \<open>connections_dyn_max\<close>, and
  the connection counter is at least the number of static and dynamic connections
  and at least the number of sockets.
\<close>

theorem client_loop_invariant:
  assumes "tcp_stack S" and "client_reach S exp_ok oc w addr tport c"
  shows "distinct (map fst (dynamic_sockets c)) \<and>
         fst ` set (dynamic_sockets c) \<subseteq> fst ` set (ss_items S (sockets c)) \<and>
         length (dynamic_sockets c) \<le> unat (connections_dyn_max w) \<and>
         unat (connections_static w) + length (dynamic_sockets c) \<le> unat (total_conns c) \<and>
         length (ss_items S (sockets c)) \<le> unat (total_conns c)"
  using tcp_stack.client_reach_inv [OF assms] tcp_stack.card_keys [OF assms(1), of "sockets c"]
  by (simp add: inv_defs ss_keys_def dyn_keys_def)

theorem client_loop_invariant_witness:
  "length [(1 :: nat, (4000000 :: nat, Infinity False))] \<le> unat (connections_dyn_max demo_workload) \<and>
   length (slab_items [None, Some (Some (0x0A000002, 49154))]) \<le> unat (1 :: u32)"
  using client_loop_invariant [OF slab_tcp.tcp_stack_axioms demo_reach2]
  by (simp add: demo_state_def slab_stack_def)

text \<open>
  C31: the connection counter never loses a socket, and in an iteration that
  starts below the limit of dynamic connections it changes by exactly as much as
  the number of sockets.
\<close>

theorem connection_counter_tracks_sockets:
  assumes "tcp_stack S" and "client_reach S exp_ok oc w addr tport c"
    and "oc \<or> total_conns c \<noteq> - 1"
    and "client_step S exp_ok oc w addr tport t c = Inr c'"
  shows "length (ss_items S (sockets c')) + unat (total_conns c) \<le>
           length (ss_items S (sockets c)) + unat (total_conns c') \<and>
         (length (dynamic_sockets c) < unat (connections_dyn_max w) \<longrightarrow>
           length (ss_items S (sockets c')) + unat (total_conns c) =
             length (ss_items S (sockets c)) + unat (total_conns c'))"
  using tcp_stack.client_step_drift
    [OF assms(1) tcp_stack.client_reach_inv [OF assms(1,2)] assms(3,4)] by blast

theorem connection_counter_tracks_sockets_witness:
  "length (slab_items [None, Some (Some (0x0A000002, 49154))]) + unat (1 :: u32) =
     length (slab_items [Some (Some (0x0A000002, 49153))]) + unat (1 :: u32)"
  using connection_counter_tracks_sockets
    [OF slab_tcp.tcp_stack_axioms demo_reach1 disjI1 [OF TrueI] demo_step2]
  by (simp add: demo_state_def slab_stack_def demo_workload_def)

text \<open>
  At the limit of dynamic connections and without preemption, an arrival that
  is due opens no socket but still counts one: the counter drifts from the number
  of open connections it is documented to hold.
\<close>

lemma full_table_counts_rejected_arrival:
  assumes "length (dynamic_sockets c) = unat (connections_dyn_max w)" and "\<not> preempt w"
    and "elapsed_ms (now_arrival t) (arrivals c) = Inr ms" and "arrival_due t c ms"
    and "arrival S exp_ok oc w addr tport t c = Inr (c', close)"
  shows "sockets c' = sockets c \<and> dynamic_sockets c' = dynamic_sockets c \<and> close = [] \<and>
         total_conns c' = total_conns c + 1"
  using assms
  by (auto simp: arrival_def result_simps preempt_one_def open_dynamic_def dest: add_oc_eq_Inr)

lemma full_table_counts_rejected_arrival_witness:
  "\<exists>c'. arrival slab_stack (\<lambda>_. True) True (Network False 0x0A000001 8080 (Fin 1) (Fin 1) 0 0 100 100 False)
        0x0A000001 8080 (net_tick 2000000 (Fin 0)) (demo_state [] [] 0 0) = Inr (c', []) \<and>
     sockets c' = [] \<and> total_conns c' = 1"
proof -
  let ?w = "Network False 0x0A000001 8080 (Fin 1) (Fin 1) 0 0 100 100 False"
  let ?c = "demo_state [] [] 0 0" and ?t = "net_tick 2000000 (Fin 0)"
  have a: "arrival slab_stack (\<lambda>_. True) True ?w 0x0A000001 8080 ?t ?c =
      Inr (demo_state [] [] 2000000 1, [])"
    by (simp add: demo_defs)
  have "elapsed_ms (now_arrival ?t) (arrivals ?c) = Inr 2" "arrival_due ?t ?c 2"
    "length (dynamic_sockets ?c) = unat (connections_dyn_max ?w)" "\<not> preempt ?w"
    by (simp_all add: demo_defs)
  from full_table_counts_rejected_arrival [OF this(3,4,1,2) a] a show ?thesis
    by (simp add: demo_state_def)
qed

text \<open>
  The endpoints \<open>start_client\<close> connects its static sockets from, and a stack whose
  \<open>connect\<close> does \<open>f\<close> instead at the endpoints \<open>eps\<close>: an iteration that is the
  same on both never connects from one of them.
\<close>

definition static_endpoints :: "bool \<Rightarrow> u32 \<Rightarrow> Workload \<Rightarrow> (u32 \<times> u16) set" where
  "static_endpoints oc addr w =
     {ep. \<exists>i < connections_static w. get_local_addr_port oc addr (conns_per_addr w) i = Inr ep}"

definition with_connect ::
    "(u32 \<times> u16) set \<Rightarrow> ('i \<Rightarrow> u32 \<times> u16 \<Rightarrow> u32 \<times> u16 \<Rightarrow> 's \<Rightarrow> 's option \<times> 'i) \<Rightarrow>
     ('s, 'ss, 'i) smoltcp \<Rightarrow> ('s, 'ss, 'i) smoltcp" where
  "with_connect eps f S =
     S\<lparr>tcp_connect := (\<lambda>ifc r l s. if l \<in> eps then f ifc r l s else tcp_connect S ifc r l s)\<rparr>"

lemma with_connect_sweep [simp]: "sweep_all (with_connect eps f S) w t i xs st = sweep_all S w t i xs st"
proof -
  have "sweep_one (with_connect eps f S) w t i h s = sweep_one S w t i h s" for i h s
    by (simp add: sweep_one_def receive_def send_hello_def with_connect_def cong: if_cong)
  then have "sweep_all (with_connect eps f S) w t i xs = sweep_all S w t i xs"
    by (induction xs arbitrary: i) (auto intro!: ext)
  then show ?thesis by simp
qed

lemma with_connect_close [simp]: "close_all (with_connect eps f S) oc hs ss tot = close_all S oc hs ss tot"
proof -
  have "ss_remove (with_connect eps f S) = ss_remove S" by (simp add: with_connect_def)
  then have "close_all (with_connect eps f S) oc hs = close_all S oc hs"
    by (induction hs) (auto intro!: ext)
  then show ?thesis by simp
qed

lemma bind_res_cong_Inr: "(\<And>x. r = Inr x \<Longrightarrow> f x = g x) \<Longrightarrow> bind_res r f = bind_res r g"
  by (cases r) simp_all

lemma with_connect_arrival:
  assumes "\<And>ep. get_local_addr_port oc addr (conns_per_addr w) (total_conns c + 1) = Inr ep \<Longrightarrow> ep \<notin> eps"
  shows "arrival (with_connect eps f S) exp_ok oc w addr tport t c = arrival S exp_ok oc w addr tport t c"
proof -
  have pre: "preempt_one (with_connect eps f S) = preempt_one S"
    by (simp add: preempt_one_def with_connect_def fun_eq_iff cong: if_cong)
  have op: "open_dynamic (with_connect eps f S) w addr tport t loc ifc ss dyn =
      open_dynamic S w addr tport t loc ifc ss dyn" if "loc \<notin> eps" for loc ifc ss dyn
  proof -
    have fields: "ss_add (with_connect eps f S) = ss_add S" "tcp_new (with_connect eps f S) = tcp_new S"
      "tcp_connect (with_connect eps f S) i r loc s = tcp_connect S i r loc s" for i r s
      using that by (simp_all add: with_connect_def)
    show ?thesis unfolding open_dynamic_def fields by (rule refl)
  qed
  show ?thesis
    unfolding arrival_def pre
    by (intro bind_res_cong_Inr if_cong refl) (auto simp: op assms dest!: add_oc_eq_Inr intro!: bind_res_cong_Inr)
qed

lemma with_connect_step:
  assumes "\<And>ep. get_local_addr_port oc addr (conns_per_addr w) (total_conns c + 1) = Inr ep \<Longrightarrow> ep \<notin> eps"
  shows "client_step (with_connect eps f S) exp_ok oc w addr tport t c =
         client_step S exp_ok oc w addr tport t c"
proof -
  have "arrival (with_connect eps f S) exp_ok oc w addr tport t (c\<lparr>iface := ifc, sockets := ss\<rparr>) =
      arrival S exp_ok oc w addr tport t (c\<lparr>iface := ifc, sockets := ss\<rparr>)" for ifc ss
    by (rule with_connect_arrival) (simp add: assms)
  moreover have "iface_poll (with_connect eps f S) = iface_poll S"
    "iface_poll_delay (with_connect eps f S) = iface_poll_delay S"
    "ss_items (with_connect eps f S) = ss_items S"
    by (simp_all add: with_connect_def)
  ultimately show ?thesis by (simp add: client_step_def)
qed

lemma next_endpoint_not_static:
  assumes "tcp_stack S" and "client_reach S exp_ok oc w addr tport c" and "total_conns c \<noteq> - 1"
    and "get_local_addr_port oc addr (conns_per_addr w) (total_conns c + 1) = Inr ep"
  shows "ep \<notin> static_endpoints oc addr w"
proof
  assume "ep \<in> static_endpoints oc addr w"
  then obtain i where i: "i < connections_static w"
    "get_local_addr_port oc addr (conns_per_addr w) i = Inr ep" by (auto simp: static_endpoints_def)
  from i(2) assms(4) have "i = total_conns c + 1" by (rule client_endpoint.endpoint_inj)
  moreover have "unat (connections_static w) \<le> unat (total_conns c)"
    using tcp_stack.client_reach_inv [OF assms(1,2)] by (simp add: inv_defs)
  ultimately show False
    using i(1) unat_suc_total [OF assms(3)] by (simp add: word_less_nat_alt)
qed

text \<open>
  C32: an iteration of the client loop never connects from the endpoint of a static
  connection. In every reachable state below the maximum of the connection
  counter, the iteration does the same, error or new state, whatever the stack's
  \<open>connect\<close> would do at the endpoints of the static connections.
\<close>

theorem dynamic_endpoint_not_static:
  assumes "tcp_stack S" and "client_reach S exp_ok oc w addr tport c" and "total_conns c \<noteq> - 1"
  shows "client_step (with_connect (static_endpoints oc addr w) f S) exp_ok oc w addr tport t c =
         client_step S exp_ok oc w addr tport t c"
  by (rule with_connect_step) (rule next_endpoint_not_static [OF assms])

theorem dynamic_endpoint_not_static_witness:
  "(0x0A000002, 49152) \<in> static_endpoints True 0x0A000001 (Network False 0x0A000001 8080 (Fin 1) (Fin 1) 1 10 100 100 False) \<and>
   client_step (with_connect (static_endpoints True 0x0A000001 (Network False 0x0A000001 8080 (Fin 1) (Fin 1) 1 10 100 100 False))
       (\<lambda>i r l s. (None, i)) slab_stack) (\<lambda>_. True) True
       (Network False 0x0A000001 8080 (Fin 1) (Fin 1) 1 10 100 100 False) 0x0A000001 8080 (net_tick 2000000 (Infinity False))
       (demo_state [Some (Some (0x0A000002, 49152))] [] 0 1) =
     Inr (demo_state [Some (Some (0x0A000002, 49152)), Some (Some (0x0A000002, 49154))]
       [(1, (2000000, Infinity False))] 2000000 2)"
proof -
  let ?w = "Network False 0x0A000001 8080 (Fin 1) (Fin 1) 1 10 100 100 False"
  let ?c = "demo_state [Some (Some (0x0A000002, 49152))] [] 0 1"
  have "client_reach slab_stack (\<lambda>_. True) True ?w 0x0A000001 8080 ?c"
    by (rule client_reach.start [where ifc = "()" and ?t0.0 = 0 and ?t1.0 = 0 and d = "Fin 0"])
      (simp add: start_client_init_def demo_defs)
  moreover have "total_conns ?c \<noteq> - 1" by (simp add: demo_state_def)
  moreover have "(0x0A000002, 49152) \<in> static_endpoints True 0x0A000001 ?w"
    by (auto simp: static_endpoints_def get_local_addr_port_def add_oc_def intro!: exI [of _ 0])
  moreover have "client_step slab_stack (\<lambda>_. True) True ?w 0x0A000001 8080 (net_tick 2000000 (Infinity False)) ?c =
     Inr (demo_state [Some (Some (0x0A000002, 49152)), Some (Some (0x0A000002, 49154))]
       [(1, (2000000, Infinity False))] 2000000 2)"
    by (simp add: demo_defs)
  ultimately show ?thesis
    using dynamic_endpoint_not_static [OF slab_tcp.tcp_stack_axioms, of _ True ?w _ _ ?c] by simp
qed

text \<open>
  C33: two live connections of the client can have the same local endpoint: the
  counter is also the index the endpoint is computed from, so after an older
  connection was closed the next one takes the endpoint of a younger, live one.
\<close>

theorem live_connections_can_share_endpoint:
  "\<exists>c h h' ep. demo_reach c \<and> h \<noteq> h' \<and>
     (h, Some ep) \<in> set (slab_items (sockets c)) \<and> (h', Some ep) \<in> set (slab_items (sockets c))"
proof -
  let ?ep = "(0x0A000002 :: u32, 49154 :: u16)"
  have "(0, Some ?ep) \<in> set (slab_items [Some (Some ?ep), Some (Some ?ep)])"
    "(1, Some ?ep) \<in> set (slab_items [Some (Some ?ep), Some (Some ?ep)])"
    by (simp_all add: slab_items_def)
  then show ?thesis
    using demo_reach3 zero_neq_one [where 'a = nat] by (fastforce simp: demo_state_def)
qed

text \<open>
  Whatever delay the stack asks for, the loop waits at most 100 milliseconds.
\<close>

lemma wait_at_most_100ms:
  "\<exists>d. wait_duration delay = Some d \<and> d \<le> 100 \<and> (\<forall>x. delay = Some x \<longrightarrow> d = min x 100)"
  by (cases delay) (simp_all add: wait_duration_def)

lemma wait_at_most_100ms_witness:
  "wait_duration (Some 30) = Some 30 \<and> wait_duration (Some 250) = Some 100 \<and> wait_duration None = Some 100"
  using wait_at_most_100ms [of "Some 30"] wait_at_most_100ms [of "Some 250"] wait_at_most_100ms [of None]
  by (auto simp: wait_duration_def)

end
