(* ===== verification/Net_Setup.thy ===== *)
theory Net_Setup
  imports Net_Client_Props
begin

text \<open>
  \<open>setup_tuntap\<close> of \<open>src/worker/network.rs\<close> and \<open>start_client\<close> as a whole: the
  set-up, the code before the loop and any number of iterations. Devices and
  interfaces are smoltcp's: a record of the constructors the function calls.
\<close>

section \<open>The device and the interface\<close>

datatype medium = Ethernet | Ip | Ieee802154

datatype hardware_address = Ethernet_addr "u8 list" | Ip_addr

text \<open>
  \<open>'d\<close> is the device (the tun device, or a wrapper of it) and \<open>'i\<close> the interface.
  \<open>None\<close> is an error of the constructor, of the push into the bounded list of
  addresses, or of the insertion of the route.
\<close>

record ('d, 'i) tun_stack =
  tun_new :: "string \<Rightarrow> medium \<Rightarrow> 'd option"
  tun_fd :: "'d \<Rightarrow> i32"
  tracer :: "'d \<Rightarrow> 'd"
  fault_injector :: "'d \<Rightarrow> u32 \<Rightarrow> 'd"
  dev_medium :: "'d \<Rightarrow> medium"
  interface_new :: "hardware_address \<Rightarrow> u64 \<Rightarrow> 'd \<Rightarrow> 'i"
  set_any_ip :: "bool \<Rightarrow> 'i \<Rightarrow> 'i"
  push_ip_addr :: "u32 \<times> nat \<Rightarrow> 'i \<Rightarrow> 'i option"
  add_default_route :: "u32 \<Rightarrow> 'i \<Rightarrow> 'i option"

definition hardware_for :: "medium \<Rightarrow> panic + hardware_address" where
  "hardware_for m =
     (case m of
        Ethernet \<Rightarrow> Inr (Ethernet_addr [0x02, 0x00, 0x00, 0x00, 0x00, 0x01])
      | Ip \<Rightarrow> Inr Ip_addr
      | Ieee802154 \<Rightarrow> Inl (Panic_msg ''not yet implemented''))"

text \<open>\<open>now\<close> is the nanosecond part of the clock, \<open>None\<close> before the epoch; \<open>seed\<close> is \<open>rand::random()\<close>.\<close>

definition setup_tuntap ::
    "('d, 'i) tun_stack \<Rightarrow> u32 option \<Rightarrow> u64 \<Rightarrow> u32 \<Rightarrow> panic + 'i \<times> 'd \<times> i32" where
  "setup_tuntap T now seed addr =
     bind_res (expect_some Unwrap_Err (tun_new T ''berserker0'' Ip)) (\<lambda>dev.
     let fd = tun_fd T dev in
     bind_res (expect_some Unwrap_Err now) (\<lambda>ns.
     let dev' = fault_injector T (tracer T dev) ns in
     bind_res (hardware_for (dev_medium T dev')) (\<lambda>hw.
     let ifc = set_any_ip T True (interface_new T hw seed dev') in
     bind_res (expect_some Unwrap_Err (push_ip_addr T (addr, 16) ifc)) (\<lambda>ifc1.
     bind_res (expect_some Unwrap_Err (add_default_route T addr ifc1)) (\<lambda>ifc2.
     Inr (ifc2, dev', fd))))))"

section \<open>The client as a whole\<close>

text \<open>
  The loop over a list of ticks: it ends by a panic or the error of a socket that
  is not a TCP socket, or is still running after the list.
\<close>

fun client_run ::
    "('s, 'ss, 'i) smoltcp \<Rightarrow> (f64 \<Rightarrow> bool) \<Rightarrow> bool \<Rightarrow> Workload \<Rightarrow> u32 \<Rightarrow> u16 \<Rightarrow> tick list \<Rightarrow>
     ('ss, 'i) client \<Rightarrow> exit + ('ss, 'i) client" where
  "client_run S exp_ok oc w addr tport [] c = Inr c"
| "client_run S exp_ok oc w addr tport (t # ts) c =
     bind_res (client_step S exp_ok oc w addr tport t c) (client_run S exp_ok oc w addr tport ts)"

record client_inputs =
  ci_now :: "u32 option"
  ci_seed :: u64
  ci_t0 :: nat
  ci_t1 :: nat
  ci_draw :: f64
  ci_ticks :: "tick list"

definition start_client ::
    "('d, 'i) tun_stack \<Rightarrow> ('s, 'ss, 'i) smoltcp \<Rightarrow> (f64 \<Rightarrow> bool) \<Rightarrow> bool \<Rightarrow> Workload \<Rightarrow> client_inputs \<Rightarrow>
     u32 \<Rightarrow> u16 \<Rightarrow> exit + ('ss, 'i) client" where
  "start_client T S exp_ok oc w inp addr tport =
     (if \<not> is_Network w then Inl (Panics Unreachable)
      else bind_res (lift_panic (setup_tuntap T (ci_now inp) (ci_seed inp) addr)) (\<lambda>(ifc, dev, fd).
           bind_res (start_client_init S exp_ok oc w addr tport ifc (ci_t0 inp) (ci_t1 inp) (ci_draw inp))
             (client_run S exp_ok oc w addr tport (ci_ticks inp))))"

section \<open>Facts\<close>

text \<open>
  What the set-up relies on: the two wrappers report the medium of the device
  they wrap, and the device has the medium it was created with.
\<close>

locale tun_device =
  fixes T :: "('d, 'i) tun_stack"
  assumes created_medium: "tun_new T name m = Some d \<Longrightarrow> dev_medium T d = m"
    and tracer_medium: "dev_medium T (tracer T d) = dev_medium T d"
    and injector_medium: "dev_medium T (fault_injector T d n) = dev_medium T d"
begin

lemma setup_medium:
  "tun_new T ''berserker0'' Ip = Some d \<Longrightarrow> dev_medium T (fault_injector T (tracer T d) n) = Ip"
  by (simp add: injector_medium tracer_medium created_medium)

lemma setup_succeeds:
  assumes "setup_tuntap T now seed addr = Inr (ifc, dev, fd)"
  shows "\<exists>d ifc1. tun_new T ''berserker0'' Ip = Some d \<and> fd = tun_fd T d \<and>
           push_ip_addr T (addr, 16) (set_any_ip T True (interface_new T Ip_addr seed dev)) = Some ifc1 \<and>
           add_default_route T addr ifc1 = Some ifc"
  using assms by (auto simp: setup_tuntap_def result_simps Let_def hardware_for_def setup_medium)

lemma setup_panics_unwrap:
  assumes "setup_tuntap T now seed addr = Inl p"
  shows "p = Unwrap_Err"
  using assms by (auto simp: setup_tuntap_def result_simps Let_def hardware_for_def setup_medium)

end

text \<open>A device with a medium, and an interface that records what was done to it.\<close>

record plain_iface =
  pi_hardware :: hardware_address
  pi_any :: bool
  pi_addrs :: "(u32 \<times> nat) list"
  pi_route :: "u32 option"

definition plain_tun :: "(medium, plain_iface) tun_stack" where
  "plain_tun = \<lparr>tun_new = (\<lambda>_ m. Some m), tun_fd = (\<lambda>_. 3), tracer = (\<lambda>d. d),
     fault_injector = (\<lambda>d _. d), dev_medium = (\<lambda>d. d),
     interface_new = (\<lambda>h _ _. \<lparr>pi_hardware = h, pi_any = False, pi_addrs = [], pi_route = None\<rparr>),
     set_any_ip = (\<lambda>b i. i\<lparr>pi_any := b\<rparr>),
     push_ip_addr = (\<lambda>a i. if length (pi_addrs i) < 2 then Some (i\<lparr>pi_addrs := pi_addrs i @ [a]\<rparr>) else None),
     add_default_route = (\<lambda>r i. Some (i\<lparr>pi_route := Some r\<rparr>))\<rparr>"

interpretation plain_tun: tun_device plain_tun
  by unfold_locales (simp_all add: plain_tun_def)

lemma plain_setup:
  "setup_tuntap plain_tun (Some ns) seed addr =
     Inr (\<lparr>pi_hardware = Ip_addr, pi_any = True, pi_addrs = [(addr, 16)], pi_route = Some addr\<rparr>, Ip, 3)"
  by (simp add: setup_tuntap_def plain_tun_def hardware_for_def Let_def)

lemma client_run_reach:
  assumes "client_reach S exp_ok oc w addr tport c"
    and "client_run S exp_ok oc w addr tport ts c = Inr c'"
    and "oc"
  shows "client_reach S exp_ok oc w addr tport c'"
  using assms
proof (induction ts arbitrary: c)
  case Nil
  then show ?case by simp
next
  case (Cons t ts)
  then show ?case by (auto simp: result_simps intro: client_reach.step)
qed

section \<open>Which panics a run can raise\<close>

lemma connect_static_Inl:
  "connect_static S oc addr tport cpa i xs st = Inl p \<Longrightarrow> p \<in> {Unwrap_Err, Arith_overflow, Div_by_zero}"
proof (induction xs arbitrary: i st)
  case Nil
  then show ?case by simp
next
  case (Cons x xs)
  obtain h s where x: "x = (h, s)" by (cases x)
  obtain ifc ss where st: "st = (ifc, ss)" by (cases st)
  consider "connect_static S oc addr tport cpa i xs st = Inl p"
    | "get_local_addr_port oc addr cpa (of_nat i) = Inl p"
    | loc where "(case tcp_connect S ifc (addr, tport) loc s of (None, ifc') \<Rightarrow> Inl Unwrap_Err
        | (Some s', ifc') \<Rightarrow>
            connect_static S oc addr tport cpa (Suc i) xs (ifc', ss_put S h s' ss)) = Inl p"
    using Cons.prems by (auto simp: x st bind_res_eq_Inl split: if_split_asm)
  then show ?case
  proof cases
    case 1
    then show ?thesis by (rule Cons.IH)
  next
    case 2
    then show ?thesis by (auto dest: get_local_addr_port_Inl)
  next
    case (3 loc)
    then show ?thesis using Cons.IH
      by (cases "tcp_connect S ifc (addr, tport) loc s") (auto split: option.split_asm)
  qed
qed

lemma start_client_init_Inl:
  assumes "start_client_init S exp_ok oc w addr tport ifc t0 t1 d = Inl (Panics p)" and "is_Network w"
  shows "p \<in> {Unwrap_Err, Arith_overflow, Div_by_zero}"
  using assms
  by (auto simp: start_client_init_def Let_def result_simps dest: connect_static_Inl exp_new_Inl)

context tcp_stack
begin

lemma client_run_panics:
  assumes "client_reach S exp_ok oc w addr tport c"
    and "oc \<or> unat (total_conns c) + length ts < 2 ^ 32"
    and "\<forall>t \<in> set ts. connections_dyn_max w \<noteq> 0 \<longrightarrow> draw_idx t < unat (connections_dyn_max w)"
    and "client_run S exp_ok oc w addr tport ts c = Inl (Panics p)"
  shows "p \<in> {Unwrap_Err, Arith_overflow, Div_by_zero, Expect ''cannot send'', Expect ''wait error''} \<or>
         p = Empty_range \<and> preempt w \<and> connections_dyn_max w = 0"
  using assms
proof (induction ts arbitrary: c)
  case Nil
  then show ?case by simp
next
  case (Cons t ts)
  have total: "oc \<or> total_conns c \<noteq> - 1"
    using Cons.prems(2) by (auto simp: unat_minus_1_u32)
  show ?case
  proof (cases "client_step S exp_ok oc w addr tport t c")
    case (Inl e)
    with Cons.prems(4) have "client_step S exp_ok oc w addr tport t c = Inl (Panics p)" by simp
    from client_step_panics [OF client_reach_inv [OF Cons.prems(1)] total _ this] Cons.prems(3)
    show ?thesis by simp
  next
    case (Inr c1)
    have "unat (total_conns c1) \<le> Suc (unat (total_conns c))"
      using client_step_inv [OF client_reach_inv [OF Cons.prems(1)] total Inr] by blast
    with Cons.prems(2) have "oc \<or> unat (total_conns c1) + length ts < 2 ^ 32" by auto
    with client_reach.step [OF Cons.prems(1) total Inr] Cons.IH Cons.prems(3,4) Inr
    show ?thesis by simp
  qed
qed

end

section \<open>Properties\<close>

text \<open>
  C6: which panics a client can raise, however long it runs, when the random index
  of a preemption is in the range it is drawn from: a failed operation of the TCP
  stack, the device or the clock, arithmetic overflow, a zero \<open>conns_per_addr\<close>, a
  failed send or wait; and, with preemption on and a limit of no dynamic
  connections, the draw from an empty range. Otherwise its own bookkeeping never
  panics: the preempted socket exists, no handle is removed twice or while absent,
  and the tun device has the medium it was created with. The client has overflow
  checks, or fewer arrivals than would wrap its connection counter.
\<close>

theorem client_panics_are_external:
  assumes "tun_device T" and "tcp_stack S" and "is_Network w"
    and "oc \<or> unat (connections_static w) + length (ci_ticks inp) < 2 ^ 32"
    and "\<forall>t \<in> set (ci_ticks inp). connections_dyn_max w \<noteq> 0 \<longrightarrow> draw_idx t < unat (connections_dyn_max w)"
    and "start_client T S exp_ok oc w inp addr tport = Inl (Panics p)"
  shows "p \<in> {Unwrap_Err, Arith_overflow, Div_by_zero, Expect ''cannot send'', Expect ''wait error''} \<or>
         p = Empty_range \<and> preempt w \<and> connections_dyn_max w = 0"
proof -
  from assms(3,6) consider
    (device) "setup_tuntap T (ci_now inp) (ci_seed inp) addr = Inl p"
  | (init) ifc where
      "start_client_init S exp_ok oc w addr tport ifc (ci_t0 inp) (ci_t1 inp) (ci_draw inp) = Inl (Panics p)"
  | (iterate) ifc c where
      "start_client_init S exp_ok oc w addr tport ifc (ci_t0 inp) (ci_t1 inp) (ci_draw inp) = Inr c"
      "client_run S exp_ok oc w addr tport (ci_ticks inp) c = Inl (Panics p)"
    by (auto simp: start_client_def result_simps)
  then show ?thesis
  proof cases
    case device
    with tun_device.setup_panics_unwrap [OF assms(1)] show ?thesis by blast
  next
    case init
    from start_client_init_Inl [OF this assms(3)] show ?thesis by blast
  next
    case iterate
    have "oc \<or> unat (total_conns c) + length (ci_ticks inp) < 2 ^ 32"
      using assms(4) tcp_stack.start_client_inv(3) [OF assms(2) iterate(1)] by simp
    from tcp_stack.client_run_panics [OF assms(2) client_reach.start [OF iterate(1)] this assms(5) iterate(2)]
    show ?thesis .
  qed
qed

text \<open>The demonstration of the client on an interface without state.\<close>

definition unit_tun :: "(medium, unit) tun_stack" where
  "unit_tun = \<lparr>tun_new = (\<lambda>_ m. Some m), tun_fd = (\<lambda>_. 3), tracer = (\<lambda>d. d),
     fault_injector = (\<lambda>d _. d), dev_medium = (\<lambda>d. d), interface_new = (\<lambda>_ _ _. ()),
     set_any_ip = (\<lambda>_ i. i), push_ip_addr = (\<lambda>_ i. Some i), add_default_route = (\<lambda>_ i. Some i)\<rparr>"

interpretation unit_tun: tun_device unit_tun
  by unfold_locales (simp_all add: unit_tun_def)

definition demo_inputs :: client_inputs where
  "demo_inputs = \<lparr>ci_now = Some 5, ci_seed = 7, ci_t0 = 0, ci_t1 = 0, ci_draw = Fin 0,
     ci_ticks = [net_tick 2000000 (Fin 0), (net_tick 2000000 (Fin 0))\<lparr>now_arrival := 0\<rparr>]\<rparr>"

lemma demo_init:
  "start_client_init slab_stack (\<lambda>_. True) True demo_workload 0x0A000001 8080 () 0 0 (Fin 0) =
     Inr (demo_state [] [] 0 0)"
  by (simp add: start_client_init_def demo_defs)

lemma demo_clock_back:
  "demo_step ((net_tick 2000000 (Fin 0))\<lparr>now_arrival := 0\<rparr>)
      (demo_state [Some (Some (0x0A000002, 49153))] [(0, (2000000, Fin 0))] 2000000 1)
     = Inl (Panics Unwrap_Err)"
  by (simp add: demo_defs)

lemma demo_run:
  "start_client unit_tun slab_stack (\<lambda>_. True) True demo_workload demo_inputs 0x0A000001 8080 =
     Inl (Panics Unwrap_Err)"
proof -
  have "setup_tuntap unit_tun (Some 5) 7 0x0A000001 = Inr ((), Ip, 3)"
    by (simp add: setup_tuntap_def unit_tun_def hardware_for_def Let_def)
  moreover have "is_Network demo_workload" by (simp add: demo_workload_def)
  ultimately show ?thesis
    by (simp add: start_client_def demo_inputs_def demo_init demo_step1 demo_clock_back)
qed

lemma demo_run_preempt:
  "start_client unit_tun slab_stack (\<lambda>_. True) False
     (Network False 0x0A000001 8080 (Fin 1) (Fin 1) 0 0 100 100 True) demo_inputs 0x0A000001 8080 =
     Inl (Panics Empty_range)"
proof -
  let ?w = "Network False 0x0A000001 8080 (Fin 1) (Fin 1) 0 0 100 100 True"
  have "setup_tuntap unit_tun (Some 5) 7 0x0A000001 = Inr ((), Ip, 3)"
    by (simp add: setup_tuntap_def unit_tun_def hardware_for_def Let_def)
  moreover have "start_client_init slab_stack (\<lambda>_. True) False ?w 0x0A000001 8080 () 0 0 (Fin 0) =
      Inr (demo_state [] [] 0 0)"
    by (simp add: start_client_init_def demo_defs)
  moreover have "client_step slab_stack (\<lambda>_. True) False ?w 0x0A000001 8080 (net_tick 2000000 (Fin 0))
      (demo_state [] [] 0 0) = Inl (Panics Empty_range)"
    by (simp add: demo_defs)
  ultimately show ?thesis by (simp add: start_client_def demo_inputs_def)
qed

theorem client_panics_are_external_witness:
  "(start_client unit_tun slab_stack (\<lambda>_. True) True demo_workload demo_inputs 0x0A000001 8080 =
      Inl (Panics Unwrap_Err) \<and>
    Unwrap_Err \<in> {Unwrap_Err, Arith_overflow, Div_by_zero, Expect ''cannot send'', Expect ''wait error''}) \<and>
   (start_client unit_tun slab_stack (\<lambda>_. True) False
      (Network False 0x0A000001 8080 (Fin 1) (Fin 1) 0 0 100 100 True) demo_inputs 0x0A000001 8080 =
      Inl (Panics Empty_range))"
proof -
  have "Unwrap_Err \<in> {Unwrap_Err, Arith_overflow, Div_by_zero, Expect ''cannot send'', Expect ''wait error''} \<or>
      Unwrap_Err = Empty_range \<and> preempt demo_workload \<and> connections_dyn_max demo_workload = 0"
    by (rule client_panics_are_external
      [OF unit_tun.tun_device_axioms slab_tcp.tcp_stack_axioms _ _ _ demo_run])
      (simp_all add: demo_workload_def demo_inputs_def net_tick_def)
  then show ?thesis using demo_run demo_run_preempt by simp
qed

end
