(* ===== verification/Net_Server.thy ===== *)
theory Net_Server
  imports Config
begin

text \<open>
  The server half of the network worker, \<open>start_server\<close> of
  \<open>src/worker/network.rs\<close>. A connection is the list of what its successive \<open>read\<close> calls return
  up to some moment; after the list the thread is still inside a \<open>read\<close>. An empty
  chunk is a read of no bytes, the end of the stream.
\<close>

section \<open>Reading a line\<close>

datatype read_result = Chunk "char list" | Read_error i32

abbreviation newline :: char where
  "newline \<equiv> CHR 0x0A"

text \<open>\<open>str::from_utf8\<close> as a check on the bytes.\<close>

definition cont_byte :: "nat \<Rightarrow> bool" where
  "cont_byte b \<longleftrightarrow> 128 \<le> b \<and> b < 192"

fun utf8_ok :: "nat list \<Rightarrow> bool" where
  "utf8_ok [] = True"
| "utf8_ok (b # bs) =
     (if b < 128 then utf8_ok bs
      else if 194 \<le> b \<and> b < 224 then
        (case bs of c # r \<Rightarrow> cont_byte c \<and> utf8_ok r | _ \<Rightarrow> False)
      else if 224 \<le> b \<and> b < 240 then
        (case bs of c # d # r \<Rightarrow>
           cont_byte c \<and> cont_byte d \<and> (b = 224 \<longrightarrow> 160 \<le> c) \<and> (b = 237 \<longrightarrow> c < 160) \<and> utf8_ok r
         | _ \<Rightarrow> False)
      else if 240 \<le> b \<and> b < 245 then
        (case bs of c # d # e # r \<Rightarrow>
           cont_byte c \<and> cont_byte d \<and> cont_byte e \<and> (b = 240 \<longrightarrow> 144 \<le> c) \<and> (b = 244 \<longrightarrow> c < 144) \<and> utf8_ok r
         | _ \<Rightarrow> False)
      else False)"

declare utf8_ok.simps(2) [simp del]

lemma utf8_ok_ascii [simp]: "b < 128 \<Longrightarrow> utf8_ok (b # bs) = utf8_ok bs"
  by (subst utf8_ok.simps) simp

definition valid_utf8 :: "char list \<Rightarrow> bool" where
  "valid_utf8 s = utf8_ok (map of_char s)"

datatype line_result = Line "char list" | Line_error | Blocked

definition checked_line :: "char list \<Rightarrow> line_result" where
  "checked_line s = (if valid_utf8 s then Line s else Line_error)"

text \<open>
  \<open>BufReader::new(..).read_line(..)\<close> on a new reader: chunks are read up to one
  with a newline, the end of the stream or an error; an interrupted read
  (number 4) is repeated. What the last chunk holds after its newline stays in
  the reader, which the caller drops. The second component is the rest of the
  reads; without one that completes the line the call has not returned.
\<close>

fun read_line :: "char list \<Rightarrow> read_result list \<Rightarrow> line_result \<times> read_result list" where
  "read_line acc [] = (Blocked, [])"
| "read_line acc (Read_error e # rs) = (if e = 4 then read_line acc rs else (Line_error, rs))"
| "read_line acc (Chunk c # rs) =
     (if c = [] then (checked_line acc, rs)
      else if newline \<in> set c then
        (checked_line (acc @ takeWhile (\<lambda>x. x \<noteq> newline) c @ [newline]), rs)
      else read_line (acc @ c) rs)"

section \<open>One connection\<close>

datatype server_event = Received "char list" | Sent string | Failed_read | Failed_send | Saw_eof

lemma read_line_shorter:
  "snd (read_line acc rs) = [] \<or> length (snd (read_line acc rs)) < length rs"
  by (induction acc rs rule: read_line.induct) auto

lemma read_line_Cons_shorter: "length (snd (read_line acc (r # rs))) < length (r # rs)"
  using read_line_shorter [of acc "r # rs"] by auto

text \<open>
  The thread of a connection: \<open>can_send\<close> tells whether the \<open>n\<close>-th response can be
  written. A read error is logged and the loop goes on, so a stream of errors
  keeps it going for ever.
\<close>

function serve_connection :: "(nat \<Rightarrow> bool) \<Rightarrow> nat \<Rightarrow> read_result list \<Rightarrow> server_event list" where
  "serve_connection can_send n [] = []"
| "serve_connection can_send n (r # rs) =
     (case read_line [] (r # rs) of
        (Line [], rest) \<Rightarrow> [Saw_eof]
      | (Line (x # xs), rest) \<Rightarrow>
          if can_send n
          then Received (x # xs) # Sent (''hello'' @ [newline]) # serve_connection can_send (Suc n) rest
          else [Received (x # xs), Failed_send]
      | (Line_error, rest) \<Rightarrow> Failed_read # serve_connection can_send n rest
      | (Blocked, rest) \<Rightarrow> [])"
  by pat_completeness auto

termination
  using read_line_Cons_shorter
  by (relation "measure (\<lambda>(_, _, rs). length rs)") (simp, metis (no_types, lifting) case_prodI in_measure mem_case_prodI2 snd_conv split_conv)+

text \<open>
  \<open>start_server\<close>: a failed bind, accept or thread creation panics, each connection
  gets a thread. \<open>incoming\<close> never ends; after the list the server is still accepting.
\<close>

fun serve_all ::
    "(i32 + bool \<times> (nat \<Rightarrow> bool) \<times> read_result list) list \<Rightarrow> server_event list list \<times> (panic + unit)" where
  "serve_all [] = ([], Inr ())"
| "serve_all (Inl e # cs) = ([], Inl Unwrap_Err)"
| "serve_all (Inr (thread_ok, can_send, rs) # cs) =
     (if \<not> thread_ok then ([], Inl (Expect ''failed to spawn thread''))
      else let (evs, r) = serve_all cs in (serve_connection can_send 0 rs # evs, r))"

definition start_server ::
    "(u32 \<Rightarrow> u16 \<Rightarrow> bool) \<Rightarrow> u32 \<Rightarrow> u16 \<Rightarrow> (i32 + bool \<times> (nat \<Rightarrow> bool) \<times> read_result list) list \<Rightarrow>
     server_event list list \<times> (panic + unit)" where
  "start_server bind_ok addr port cs =
     (if bind_ok addr port then serve_all cs else ([], Inl Unwrap_Err))"

section \<open>The worker\<close>

record NetworkWorker =
  nw_config :: BaseConfig
  nw_workload :: WorkloadConfig

definition NetworkWorker_new :: "WorkloadConfig \<Rightarrow> usize \<Rightarrow> usize \<Rightarrow> NetworkWorker" where
  "NetworkWorker_new w c p = \<lparr>nw_config = \<lparr>cpu = c, process = p\<rparr>, nw_workload = w\<rparr>"

definition show_NetworkWorker :: "NetworkWorker \<Rightarrow> string" where
  "show_NetworkWorker self = show_BaseConfig (nw_config self)"

section \<open>Facts on lines\<close>

definition ascii :: "char list \<Rightarrow> bool" where
  "ascii s \<longleftrightarrow> (\<forall>c \<in> set s. (of_char c :: nat) < 128)"

lemma ascii_simps [simp]:
  "ascii []" "ascii (a @ b) \<longleftrightarrow> ascii a \<and> ascii b" "ascii (c # s) \<longleftrightarrow> (of_char c :: nat) < 128 \<and> ascii s"
  by (auto simp: ascii_def)

lemma ascii_takeWhile: "ascii s \<Longrightarrow> ascii (takeWhile P s)"
  by (auto simp: ascii_def dest: set_takeWhileD)

lemma utf8_ok_all_ascii: "\<forall>b \<in> set bs. b < 128 \<Longrightarrow> utf8_ok bs"
  by (induction bs) simp_all

lemma ascii_valid: "ascii s \<Longrightarrow> valid_utf8 s"
  unfolding valid_utf8_def ascii_def by (rule utf8_ok_all_ascii) (simp only: set_map ball_simps)

text \<open>Chunks without a newline accumulate; the first with one ends the line.\<close>

lemma read_line_no_newline:
  assumes "\<forall>c \<in> set cs. c \<noteq> [] \<and> newline \<notin> set c"
  shows "read_line acc (map Chunk cs @ rs) = read_line (acc @ concat cs) rs"
  using assms by (induction cs arbitrary: acc) auto

lemma first_newline_split:
  obtains "\<forall>c \<in> set cs. newline \<notin> set c"
  | pre c post where "cs = pre @ c # post" "\<forall>d \<in> set pre. newline \<notin> set d" "newline \<in> set c"
proof (cases "\<exists>c \<in> set cs. newline \<in> set c")
  case True
  from split_list_first_prop [OF this] show ?thesis using that(2) by blast
next
  case False
  then show ?thesis using that(1) by blast
qed

definition responses :: "server_event list \<Rightarrow> nat" where
  "responses evs = length (filter (\<lambda>e. \<exists>s. e = Sent s) evs)"

lemma responses_simps [simp]:
  "responses [] = 0" "responses (Received l # evs) = responses evs"
  "responses (Sent s # evs) = Suc (responses evs)" "responses (Saw_eof # evs) = responses evs"
  by (simp_all add: responses_def)

lemma serve_line:
  assumes "rs \<noteq> []" and "read_line [] rs = (Line l, rest)" and "l \<noteq> []" and "can_send n"
  shows "serve_connection can_send n rs =
           Received l # Sent (''hello'' @ [newline]) # serve_connection can_send (Suc n) rest"
  using assms by (cases rs; cases l) simp_all

definition good_chunks :: "char list list \<Rightarrow> bool" where
  "good_chunks cs \<longleftrightarrow> (\<forall>c \<in> set cs. c \<noteq> [] \<and> ascii c)"

lemma good_concat: "good_chunks cs \<Longrightarrow> ascii (concat cs)"
  by (auto simp: good_chunks_def ascii_def)

text \<open>The stream of these chunks and of the reads at its end, which all return no bytes.\<close>

abbreviation whole_stream :: "char list list \<Rightarrow> read_result list \<Rightarrow> read_result list" where
  "whole_stream cs rs \<equiv> map Chunk cs @ Chunk [] # Chunk [] # rs"

lemma serve_chunks_count:
  assumes "good_chunks cs" and "\<And>m. can_send m"
  shows "responses (serve_connection can_send n (whole_stream cs rs)) =
           length (filter (\<lambda>c. newline \<in> set c) cs) +
           (if cs = [] \<or> newline \<in> set (last cs) then 0 else 1)"
  using assms(1)
proof (induction "length cs" arbitrary: cs n rule: less_induct)
  case less
  show ?case
  proof (cases rule: first_newline_split [of cs])
    case 1
    show ?thesis
    proof (cases "cs = []")
      case False
      with 1 less.prems have "concat cs \<noteq> []" "newline \<notin> set (last cs)"
        by (auto simp: good_chunks_def neq_Nil_conv)
      moreover have "read_line [] (whole_stream cs rs) = (Line (concat cs), Chunk [] # rs)"
        using read_line_no_newline [of cs "[]" "Chunk [] # Chunk [] # rs"] 1 less.prems good_concat [OF less.prems]
        by (simp add: good_chunks_def checked_line_def ascii_valid)
      ultimately show ?thesis
        using False 1 serve_line [of "whole_stream cs rs" "concat cs" "Chunk [] # rs" can_send n] assms(2)
        by (simp add: filter_empty_conv checked_line_def ascii_valid)
    qed (simp add: checked_line_def ascii_valid)
  next
    case (2 pre c post)
    let ?l = "concat pre @ takeWhile (\<lambda>x. x \<noteq> newline) c @ [newline]"
    have "ascii (concat pre)" "ascii c" "good_chunks post"
      using less.prems good_concat [of pre] by (auto simp: 2(1) good_chunks_def)
    then have "read_line [] (whole_stream cs rs) = (Line ?l, whole_stream post rs)"
      using read_line_no_newline [of pre "[]" "Chunk c # whole_stream post rs"] 2 less.prems
      by (auto simp: good_chunks_def checked_line_def ascii_valid ascii_takeWhile)
    with serve_line [of "whole_stream cs rs" ?l "whole_stream post rs" can_send n] assms(2)
    have "responses (serve_connection can_send n (whole_stream cs rs)) =
        Suc (responses (serve_connection can_send (Suc n) (whole_stream post rs)))" by (simp add: 2(1))
    moreover have "filter (\<lambda>c. newline \<in> set c) pre = []" using 2(2) by (simp add: filter_empty_conv)
    ultimately show ?thesis
      using less.hyps [of post "Suc n"] \<open>good_chunks post\<close> 2(3) by (simp add: 2(1))
  qed
qed

section \<open>The end of a connection\<close>

definition final_event :: "server_event \<Rightarrow> bool" where
  "final_event e \<longleftrightarrow> e = Saw_eof \<or> e = Failed_send"

lemma final_event_simps [simp]:
  "final_event Saw_eof" "final_event Failed_send" "\<not> final_event Failed_read"
  "\<not> final_event (Received l)" "\<not> final_event (Sent m)"
  by (simp_all add: final_event_def)

text \<open>Each round of the loop begins with what its read returned.\<close>

fun starts_round :: "server_event \<Rightarrow> bool" where
  "starts_round (Sent m) = False"
| "starts_round Failed_send = False"
| "starts_round e = True"

text \<open>Two reads at the end of the stream are enough: one ends a last line, the other is the end.\<close>

lemma read_line_eof:
  assumes "read_line acc (rs @ [Chunk [], Chunk []]) = (l, rest)"
  shows "(\<exists>rs'. rest = rs' @ [Chunk [], Chunk []] \<and> length rs' < length rs \<and> l \<noteq> Blocked) \<or>
         (rest = [Chunk []] \<and> l = checked_line (acc @ concat (map (\<lambda>r. case r of Chunk c \<Rightarrow> c | _ \<Rightarrow> []) rs)))"
  using assms
proof (induction acc rs rule: read_line.induct)
  case (2 acc e rs)
  then show ?case by (cases "e = 4") (auto intro: less_SucI)
next
  case (3 acc c rs)
  then show ?case
    by (auto simp: checked_line_def split: if_splits intro: less_SucI)
qed auto

lemma serve_end:
  "\<exists>evs e. serve_connection can_send k (rs @ [Chunk [], Chunk []]) = evs @ [e] \<and> final_event e \<and>
     list_all (\<lambda>x. \<not> final_event x) evs \<and> length (filter starts_round (evs @ [e])) \<le> length rs + 2"
proof (induction "length rs" arbitrary: rs k rule: less_induct)
  case less
  let ?str = "rs @ [Chunk [], Chunk []]"
  obtain l rest where l: "read_line [] ?str = (l, rest)" by (cases "read_line [] ?str")
  obtain x xs where str: "?str = x # xs" by (cases ?str) auto
  have unfold: "serve_connection can_send k ?str =
     (case (l, rest) of
        (Line [], rest) \<Rightarrow> [Saw_eof]
      | (Line (y # ys), rest) \<Rightarrow>
          if can_send k
          then Received (y # ys) # Sent (''hello'' @ [newline]) # serve_connection can_send (Suc k) rest
          else [Received (y # ys), Failed_send]
      | (Line_error, rest) \<Rightarrow> Failed_read # serve_connection can_send k rest
      | (Blocked, rest) \<Rightarrow> [])"
    unfolding str serve_connection.simps l [unfolded str] ..
  have more: "\<exists>evs e. serve_connection can_send m rest = evs @ [e] \<and> final_event e \<and>
      list_all (\<lambda>x. \<not> final_event x) evs \<and> length (filter starts_round (evs @ [e])) \<le> length rs + 1" for m
  proof -
    from read_line_eof [OF l] consider rs' where "rest = rs' @ [Chunk [], Chunk []]" "length rs' < length rs"
      | "rest = [Chunk []]" by blast
    then show ?thesis
    proof cases
      case (1 rs')
      from less [OF 1(2), of m] obtain evs e where
        "serve_connection can_send m rest = evs @ [e]" "final_event e" "list_all (\<lambda>x. \<not> final_event x) evs"
        "length (filter starts_round (evs @ [e])) \<le> length rs' + 2" by (auto simp: 1(1))
      with 1(2) show ?thesis by (intro exI [of _ evs] exI [of _ e]) simp
    next
      case 2
      then show ?thesis by (intro exI [of _ "[]"] exI [of _ Saw_eof]) (simp add: checked_line_def valid_utf8_def)
    qed
  qed
  have step: ?case if "serve_connection can_send k ?str = pre @ serve_connection can_send m rest"
    "list_all (\<lambda>x. \<not> final_event x) pre" "length (filter starts_round pre) \<le> 1" for pre m
  proof -
    from more [of m] obtain evs e where
      "serve_connection can_send m rest = evs @ [e]" "final_event e" "list_all (\<lambda>x. \<not> final_event x) evs"
      "length (filter starts_round (evs @ [e])) \<le> length rs + 1" by blast
    with that show ?thesis by (intro exI [of _ "pre @ evs"] exI [of _ e]) simp
  qed
  show ?case
  proof (cases l)
    case (Line t)
    show ?thesis
    proof (cases t)
      case Nil
      with Line unfold show ?thesis by (intro exI [of _ "[]"] exI [of _ Saw_eof]) simp
    next
      case (Cons y ys)
      show ?thesis
      proof (cases "can_send k")
        case True
        with Line Cons unfold show ?thesis
          by (intro step [of "[Received t, Sent (''hello'' @ [newline])]" "Suc k"]) simp_all
      next
        case False
        with Line Cons unfold show ?thesis by (intro exI [of _ "[Received t]"] exI [of _ Failed_send]) simp
      qed
    qed
  next
    case Line_error
    with unfold show ?thesis by (intro step [of "[Failed_read]" k]) simp_all
  next
    case Blocked
    with read_line_eof [OF l] show ?thesis by (auto simp: checked_line_def split: if_splits)
  qed
qed

section \<open>Properties\<close>

text \<open>
  C23: on a connection where each read returns one complete line until the end of
  the stream, the server receives every line in order, answers each with \<open>hello\<close>
  before it reads the next, and stops at the end of the stream.
\<close>

theorem server_answers_each_line:
  assumes "\<And>l. l \<in> set ls \<Longrightarrow> ascii l \<and> newline \<notin> set l" and "\<And>m. can_send m"
  shows "serve_connection can_send n (map (\<lambda>l. Chunk (l @ [newline])) ls @ Chunk [] # rs) =
           concat (map (\<lambda>l. [Received (l @ [newline]), Sent (''hello'' @ [newline])]) ls) @ [Saw_eof]"
  using assms(1)
proof (induction ls arbitrary: n)
  case Nil
  then show ?case by (simp add: checked_line_def ascii_valid)
next
  case (Cons l ls)
  then have l: "ascii l" "newline \<notin> set l" by auto
  then have "takeWhile (\<lambda>x. x \<noteq> newline) (l @ [newline]) = l"
    by (auto simp: takeWhile_append takeWhile_eq_all_conv)
  with l have "read_line [] (map (\<lambda>l. Chunk (l @ [newline])) (l # ls) @ Chunk [] # rs) =
      (Line (l @ [newline]), map (\<lambda>l. Chunk (l @ [newline])) ls @ Chunk [] # rs)"
    by (simp add: checked_line_def ascii_valid)
  from serve_line [OF _ this, of can_send n] assms(2) [of n] Cons.IH [of "Suc n"] Cons.prems show ?case
    by (simp del: serve_connection.simps read_line.simps)
qed

theorem server_answers_each_line_witness:
  "serve_connection (\<lambda>_. True) 0 (map (\<lambda>l. Chunk (l @ [newline])) [''ping'', ''pong''] @ Chunk [] # []) =
     concat (map (\<lambda>l. [Received (l @ [newline]), Sent (''hello'' @ [newline])]) [''ping'', ''pong'']) @ [Saw_eof]"
  by (rule server_answers_each_line) auto

text \<open>
  C24: the server answers reads, not lines: on a stream that is read to its end the
  number of responses is the number of chunks with a newline, plus one for a rest
  without newline. The lines that follow the first one in the same chunk are
  dropped with the reader and never answered.
\<close>

theorem server_answers_chunks:
  assumes "\<And>c. c \<in> set cs \<Longrightarrow> c \<noteq> [] \<and> ascii c" and "\<And>m. can_send m"
  shows "responses (serve_connection can_send n (map Chunk cs @ Chunk [] # Chunk [] # rs)) =
           length (filter (\<lambda>c. newline \<in> set c) cs) +
           (if cs = [] \<or> newline \<in> set (last cs) then 0 else 1)"
  using serve_chunks_count [of cs can_send n rs] assms by (simp add: good_chunks_def)

theorem server_answers_chunks_witness:
  "responses (serve_connection (\<lambda>_. True) 0
     (map Chunk [''a'' @ [newline] @ ''b'' @ [newline], ''c'' @ [newline]] @ Chunk [] # Chunk [] # [])) = 2"
  by (subst server_answers_chunks) auto

text \<open>
  C30: when the thread of a connection ends. Whatever was read before, lines, parts
  of lines or errors, two reads at the end of the stream end it; its last action
  is to see that end or a response it could not send, nothing follows either of
  them, and it went through its loop at most once per read. Read errors alone never
  end it: as long as every read fails, it tries again.
\<close>

theorem connection_thread_ends:
  "(\<exists>evs e. serve_connection can_send k (rs @ [Chunk [], Chunk []]) = evs @ [e] \<and> (e = Saw_eof \<or> e = Failed_send) \<and>
      Saw_eof \<notin> set evs \<and> Failed_send \<notin> set evs \<and> length (filter starts_round (evs @ [e])) \<le> length rs + 2) \<and>
   serve_connection can_send k (replicate m (Read_error n)) = (if n = 4 then [] else replicate m Failed_read)"
proof
  obtain evs e where "serve_connection can_send k (rs @ [Chunk [], Chunk []]) = evs @ [e]" "final_event e"
    "list_all (\<lambda>x. \<not> final_event x) evs" "length (filter starts_round (evs @ [e])) \<le> length rs + 2"
    using serve_end by blast
  moreover from this have "Saw_eof \<notin> set evs" "Failed_send \<notin> set evs" by (auto simp: list_all_iff)
  ultimately show "\<exists>evs e. serve_connection can_send k (rs @ [Chunk [], Chunk []]) = evs @ [e] \<and>
      (e = Saw_eof \<or> e = Failed_send) \<and> Saw_eof \<notin> set evs \<and> Failed_send \<notin> set evs \<and>
      length (filter starts_round (evs @ [e])) \<le> length rs + 2" by (auto simp: final_event_def)
  have "read_line [] (replicate m (Read_error 4)) = (Blocked, [])" for m by (induction m) simp_all
  then have "serve_connection can_send k (replicate m (Read_error 4)) = []" by (cases m) simp_all
  moreover have "serve_connection can_send k (replicate m (Read_error n)) = replicate m Failed_read" if "n \<noteq> 4"
    using that by (induction m) simp_all
  ultimately show "serve_connection can_send k (replicate m (Read_error n)) =
      (if n = 4 then [] else replicate m Failed_read)" by simp
qed

end
