(* ===== verification/Net_Worker.thy ===== *)
theory Net_Worker
  imports Net_Setup Net_Server
begin

text \<open>
  \<open>run_payload\<close> of the network worker: the server or the client of
  \<open>src/worker/network.rs\<close>, and that neither ever returns to its caller.
\<close>

section \<open>The worker\<close>

text \<open>What a run meets outside: the listener and its connections, the device and the TCP stack.\<close>

record ('d, 's, 'ss, 'n) net_env =
  ne_bind :: "u32 \<Rightarrow> u16 \<Rightarrow> bool"
  ne_incoming :: "(i32 + bool \<times> (nat \<Rightarrow> bool) \<times> read_result list) list"
  ne_tun :: "('d, 'n) tun_stack"
  ne_stack :: "('s, 'ss, 'n) smoltcp"
  ne_exp_ok :: "f64 \<Rightarrow> bool"
  ne_oc :: bool
  ne_inputs :: client_inputs

datatype net_round = Net_panics panic | Net_returns "WorkerError + unit" | Net_runs

text \<open>The results of the two halves are thrown away; their panics are not.\<close>

definition NetworkWorker_run_payload ::
    "('d, 's, 'ss, 'n) net_env \<Rightarrow> NetworkWorker \<Rightarrow> net_round" where
  "NetworkWorker_run_payload env self =
     (case workload (nw_workload self) of
        Network srv addr port _ _ _ _ _ _ _ \<Rightarrow>
          if srv then
            (case snd (start_server (ne_bind env) addr port (ne_incoming env)) of
               Inl p \<Rightarrow> Net_panics p
             | Inr _ \<Rightarrow> Net_runs)
          else
            (case start_client (ne_tun env) (ne_stack env) (ne_exp_ok env) (ne_oc env)
                    (workload (nw_workload self)) (ne_inputs env) addr port of
               Inl (Panics p) \<Rightarrow> Net_panics p
             | Inl (Returns e) \<Rightarrow> Net_returns (Inr ())
             | Inr _ \<Rightarrow> Net_runs)
      | _ \<Rightarrow> Net_panics Unreachable)"

section \<open>The client never returns\<close>

text \<open>
  Every socket of the client's set is a TCP socket: the code adds no other, an
  operation on a TCP socket leaves one, and the set holds what was put into it.
\<close>

definition all_tcp :: "('s, 'ss, 'i) smoltcp \<Rightarrow> 'ss \<Rightarrow> bool" where
  "all_tcp S ss \<longleftrightarrow> (\<forall>s \<in> snd ` set (ss_items S ss). tcp_downcast S s)"

locale tcp_only = tcp_stack +
  assumes new_tcp: "tcp_downcast S (tcp_new S)"
    and connect_tcp: "tcp_connect S ifc r l s = (Some s', ifc') \<Longrightarrow> tcp_downcast S s \<Longrightarrow> tcp_downcast S s'"
    and close_tcp: "tcp_downcast S s \<Longrightarrow> tcp_downcast S (tcp_close S s)"
    and recv_tcp: "tcp_recv S s = Some s' \<Longrightarrow> tcp_downcast S s \<Longrightarrow> tcp_downcast S s'"
    and send_tcp: "tcp_send_slice S d s = Some s' \<Longrightarrow> tcp_downcast S s \<Longrightarrow> tcp_downcast S s'"
    and add_items: "ss_add S s ss = (h, ss') \<Longrightarrow> snd ` set (ss_items S ss') \<subseteq> insert s (snd ` set (ss_items S ss))"
    and put_items: "snd ` set (ss_items S (ss_put S h s ss)) \<subseteq> insert s (snd ` set (ss_items S ss))"
    and remove_items: "ss_remove S h ss = Some ss' \<Longrightarrow> snd ` set (ss_items S ss') \<subseteq> snd ` set (ss_items S ss)"
    and poll_tcp: "iface_poll S n ifc ss = (ifc', ss') \<Longrightarrow> all_tcp S ss \<Longrightarrow> all_tcp S ss'"
begin

lemma all_tcp_add: "ss_add S s ss = (h, ss') \<Longrightarrow> tcp_downcast S s \<Longrightarrow> all_tcp S ss \<Longrightarrow> all_tcp S ss'"
  using add_items by (fastforce simp: all_tcp_def)

lemma all_tcp_put: "tcp_downcast S s \<Longrightarrow> all_tcp S ss \<Longrightarrow> all_tcp S (ss_put S h s ss)"
  using put_items by (fastforce simp: all_tcp_def)

lemma all_tcp_remove: "ss_remove S h ss = Some ss' \<Longrightarrow> all_tcp S ss \<Longrightarrow> all_tcp S ss'"
  using remove_items by (fastforce simp: all_tcp_def)

lemma all_tcp_static: "all_tcp S ss \<Longrightarrow> all_tcp S (add_static S n ss)"
proof (induction n arbitrary: ss)
  case (Suc n)
  obtain h ss' where a: "ss_add S (tcp_new S) ss = (h, ss')" by (cases "ss_add S (tcp_new S) ss")
  with Suc all_tcp_add [OF a new_tcp] show ?case by simp
qed simp

lemma all_tcp_connect:
  assumes "connect_static S oc addr tport cpa i xs (ifc, ss) = Inr (ifc', ss')" and "all_tcp S ss"
  shows "all_tcp S ss'"
  using assms
proof (induction xs arbitrary: i ifc ss)
  case Nil
  then show ?case by simp
next
  case (Cons x xs)
  obtain h s where x: "x = (h, s)" by (cases x)
  show ?case
  proof (cases "tcp_downcast S s")
    case True
    with Cons.prems(1) obtain loc where
      loc: "(case tcp_connect S ifc (addr, tport) loc s of (None, ifc1) \<Rightarrow> Inl Unwrap_Err
         | (Some s', ifc1) \<Rightarrow>
             connect_static S oc addr tport cpa (Suc i) xs (ifc1, ss_put S h s' ss)) = Inr (ifc', ss')"
      by (auto simp only: x connect_static.simps if_True bind_res_eq_Inr)
    obtain r ifc1 where c: "tcp_connect S ifc (addr, tport) loc s = (r, ifc1)"
      by (cases "tcp_connect S ifc (addr, tport) loc s")
    with loc obtain s' where s': "r = Some s'"
      "connect_static S oc addr tport cpa (Suc i) xs (ifc1, ss_put S h s' ss) = Inr (ifc', ss')"
      by (cases r) auto
    from Cons.IH [OF s'(2)] all_tcp_put connect_tcp [OF c [unfolded s'(1)] True] Cons.prems(2)
    show ?thesis by blast
  next
    case False
    then show ?thesis using Cons.IH [of i ifc ss] Cons.prems by (simp add: x)
  qed
qed

lemma all_tcp_start:
  assumes "start_client_init S exp_ok oc w addr tport ifc t0 t1 d = Inr c"
  shows "all_tcp S (sockets c)"
proof -
  let ?ss = "add_static S (unat (connections_static w)) (ss_empty S)"
  have "all_tcp S ?ss" by (rule all_tcp_static) (simp add: all_tcp_def empty_items)
  with assms all_tcp_connect show ?thesis
    by (auto simp: start_client_init_def Let_def result_simps split: if_splits)
qed

lemma all_tcp_open:
  assumes "open_dynamic S w addr tport t loc ifc ss dyn = Inr (ifc', ss', dyn')" and "all_tcp S ss"
  shows "all_tcp S ss'"
proof (cases "length dyn < unat (connections_dyn_max w)")
  case True
  obtain r ifc1 where c: "tcp_connect S ifc (addr, tport) loc (tcp_new S) = (r, ifc1)"
    by (cases "tcp_connect S ifc (addr, tport) loc (tcp_new S)")
  with assms(1) True obtain s where s: "r = Some s" by (cases r) (simp_all add: open_dynamic_def)
  obtain h ss1 where a: "ss_add S s ss = (h, ss1)" by (cases "ss_add S s ss")
  from assms(1) True c s a have "ss' = ss1" by (simp add: open_dynamic_def)
  with all_tcp_add [OF a connect_tcp [OF c [unfolded s] new_tcp] assms(2)] show ?thesis by simp
next
  case False
  with assms show ?thesis by (simp add: open_dynamic_def)
qed

lemma all_tcp_arrival:
  assumes "arrival S exp_ok oc w addr tport t c = Inr (c', close)" and "all_tcp S (sockets c)"
  shows "all_tcp S (sockets c')"
  using assms all_tcp_open by (auto simp: arrival_def result_simps split: if_splits)

lemma sweep_one_tcp:
  assumes "sweep_one S w t i h s (ss, rest) = Inr (ss', rest')" and "tcp_downcast S s" and "all_tcp S ss"
  shows "all_tcp S ss'"
proof -
  obtain dyn tm close where r: "rest = (dyn, tm, close)" by (cases rest)
  have "tcp_downcast S s1" if "receive S s = Inr s1" for s1
    using that assms(2) recv_tcp by (auto simp: receive_def result_simps split: if_splits)
  moreover have "tcp_downcast S s2" if "send_hello S w t i h s1 tm = Inr (s2, tm')" "tcp_downcast S s1" for s1 s2 tm'
    using that send_tcp by (auto simp: send_hello_def result_simps split: if_splits)
  ultimately show ?thesis
    using assms close_tcp all_tcp_put
    by (auto simp: r sweep_one_def result_simps split: if_splits)
qed

lemma sweep_all_tcp:
  assumes "\<forall>s \<in> snd ` set xs. tcp_downcast S s" and "all_tcp S ss"
  shows "sweep_all S w t i xs (ss, rest) \<noteq> Inl (Returns e) \<and>
    (\<forall>ss' rest'. sweep_all S w t i xs (ss, rest) = Inr (ss', rest') \<longrightarrow> all_tcp S ss')"
  using assms
proof (induction xs arbitrary: i ss rest)
  case Nil
  then show ?case by simp
next
  case (Cons x xs)
  obtain h s where x: "x = (h, s)" by (cases x)
  have s: "tcp_downcast S s" using Cons.prems(1) by (simp add: x)
  show ?case
  proof (cases "sweep_one S w t i h s (ss, rest)")
    case (Inl e')
    with s have "e' \<noteq> Returns e"
      by (cases rest) (auto simp: sweep_one_def result_simps split: if_splits)
    with Inl show ?thesis by (simp add: x)
  next
    case (Inr q)
    obtain ss1 rest1 where q: "q = (ss1, rest1)" by (cases q)
    from Cons.IH [of ss1 "Suc i" rest1] sweep_one_tcp [OF Inr [unfolded q] s Cons.prems(2)] Cons.prems(1)
    show ?thesis by (simp add: x Inr q)
  qed
qed

lemma close_all_tcp: "close_all S oc hs ss n = Inr (ss', n') \<Longrightarrow> all_tcp S ss \<Longrightarrow> all_tcp S ss'"
  by (induction hs arbitrary: ss n) (auto simp: result_simps intro: all_tcp_remove)

lemma client_step_tcp:
  assumes "all_tcp S (sockets c)"
  shows "client_step S exp_ok oc w addr tport t c \<noteq> Inl (Returns e) \<and>
    (\<forall>c'. client_step S exp_ok oc w addr tport t c = Inr c' \<longrightarrow> all_tcp S (sockets c'))"
proof -
  obtain ifc ss where po: "iface_poll S (now_poll t) (iface c) (sockets c) = (ifc, ss)"
    by (cases "iface_poll S (now_poll t) (iface c) (sockets c)")
  let ?c0 = "c\<lparr>iface := ifc, sockets := ss\<rparr>"
  have tcp0: "all_tcp S (sockets ?c0)" using poll_tcp [OF po assms] by simp
  show ?thesis
  proof (cases "arrival S exp_ok oc w addr tport t ?c0")
    case (Inl p)
    then show ?thesis by (simp add: client_step_def po)
  next
    case (Inr q)
    obtain c1 close0 where q: "q = (c1, close0)" by (cases q)
    have tcp1: "all_tcp S (sockets c1)" using all_tcp_arrival [OF Inr [unfolded q] tcp0] .
    let ?sw = "sweep_all S w t 0 (ss_items S (sockets c1))
        (sockets c1, dynamic_sockets c1, send_timer c1, close0)"
    note sw = sweep_all_tcp [OF tcp1 [unfolded all_tcp_def] tcp1, of w t 0
        "(dynamic_sockets c1, send_timer c1, close0)"]
    show ?thesis
    proof (cases ?sw)
      case l: (Inl e')
      with sw have "e' \<noteq> Returns e" by blast
      with l Inr q show ?thesis by (simp add: client_step_def po)
    next
      case r: (Inr q')
      obtain ss' dyn tm close where q': "q' = (ss', dyn, tm, close)" by (cases q')
      have "all_tcp S ss'" using sw r q' by blast
      with close_all_tcp r q' Inr q show ?thesis
        by (cases "close_all S oc close ss' (total_conns c1)") (auto simp: client_step_def po split: if_splits)
    qed
  qed
qed

lemma client_run_tcp:
  "all_tcp S (sockets c) \<Longrightarrow> client_run S exp_ok oc w addr tport ts c \<noteq> Inl (Returns e)"
proof (induction ts arbitrary: c)
  case (Cons t ts)
  with client_step_tcp [OF Cons.prems, of exp_ok oc w addr tport t e] show ?case
    by (cases "client_step S exp_ok oc w addr tport t c") auto
qed simp

lemma start_client_never_returns: "start_client T S exp_ok oc w inp addr tport \<noteq> Inl (Returns e)"
proof -
  have "start_client_init S exp_ok oc w addr tport ifc t0 t1 d \<noteq> Inl (Returns e)" for ifc t0 t1 d
    by (auto simp: start_client_init_def Let_def result_simps)
  then show ?thesis using client_run_tcp [OF all_tcp_start]
    by (auto simp: start_client_def result_simps)
qed

end

text \<open>The worker on such a stack, and the instance of the demonstration.\<close>

lemma network_worker_never_returns:
  assumes "tcp_only (ne_stack env)"
  shows "NetworkWorker_run_payload env self \<noteq> Net_returns r"
  by (auto simp: NetworkWorker_run_payload_def tcp_only.start_client_never_returns [OF assms]
      split: Workload.split sum.split exit.split)

lemma slab_values: "snd ` set (slab_items xs) = {s. Some s \<in> set xs}"
proof -
  have "s \<in> snd ` set (slab_items xs) \<longleftrightarrow> (\<exists>i < length xs. xs ! i = Some s)" for s
    by (force simp: slab_items_def in_set_enumerate_eq image_iff)
  then show ?thesis by (simp add: set_eq_iff in_set_conv_nth)
qed

interpretation slab_only: tcp_only slab_stack
proof unfold_locales
  show "snd ` set (ss_items slab_stack ss') \<subseteq> insert s (snd ` set (ss_items slab_stack ss))"
    if "ss_add slab_stack s ss = (h, ss')" for s h and ss ss' :: slab
    using that set_update_subset_insert [of ss "slab_slot ss" "Some s"]
    by (auto simp: slab_stack_def slab_values slab_add_def Let_def split: if_splits)
  show "snd ` set (ss_items slab_stack (ss_put slab_stack h s ss)) \<subseteq>
      insert s (snd ` set (ss_items slab_stack ss))" for h s and ss :: slab
    using set_update_subset_insert [of ss h "Some s"] by (auto simp: slab_stack_def slab_values)
  show "snd ` set (ss_items slab_stack ss') \<subseteq> snd ` set (ss_items slab_stack ss)"
    if "ss_remove slab_stack h ss = Some ss'" for h and ss ss' :: slab
    using that set_update_subset_insert [of ss h None]
    by (auto simp: slab_stack_def slab_values slab_remove_def split: if_splits)
qed (simp_all add: slab_stack_def all_tcp_def)

end
