(* ===== verification/Main_Process.thy ===== *)
theory Main_Process
  imports Endpoints Processes Syscalls Io_Uring Bpf Net_Worker
begin

text \<open>
  \<open>src/worker/mod.rs\<close> and \<open>src/main.rs\<close>: choosing a worker for the configured
  workload, handing out port ranges, starting the worker processes, and the two
  threads that end and reap them.
\<close>

section \<open>Choosing a worker\<close>

datatype worker =
    W_Processes ProcessesWorker
  | W_Endpoints EndpointWorker
  | W_Syscalls SyscallsWorker
  | W_Network NetworkWorker
  | W_Bpf BpfWorker
  | W_IOUring IOUringWorker

text \<open>
  What the two distributions of the rand crates do for one worker: \<open>zipf\<close> stands
  for \<open>Zipf::new(..).unwrap()\<close> and a sample of it, \<open>uniform\<close> for
  \<open>Uniform::new\<close>, which panics on an empty range, and a sample.
\<close>

record sampler =
  zipf :: "u64 \<Rightarrow> f64 \<Rightarrow> panic + f64"
  uniform :: "u64 \<Rightarrow> u64 \<Rightarrow> panic + u64"

type_synonym bounds = "usize \<times> usize"

fun sample_ports :: "sampler \<Rightarrow> Distribution \<Rightarrow> panic + usize" where
  "sample_ports smp (Zipfian n e) = map_res f64_as_usize (zipf smp n e)"
| "sample_ports smp (Uniform l u) = uniform smp l u"

definition new_worker ::
    "bool \<Rightarrow> sampler \<Rightarrow> WorkloadConfig \<Rightarrow> usize \<Rightarrow> usize \<Rightarrow> bounds \<Rightarrow> panic + worker \<times> bounds" where
  "new_worker oc smp cfg c p b =
     (case workload cfg of
        Processes _ _ _ \<Rightarrow> Inr (W_Processes (ProcessesWorker_new cfg c p), b)
      | Endpoints d \<Rightarrow>
          bind_res (sample_ports smp d) (\<lambda>n.
          bind_res (add_oc oc (snd b) n) (\<lambda>u.
          Inr (W_Endpoints (EndpointWorker_new cfg c p (snd b) u), (snd b, u))))
      | Syscalls _ _ _ _ \<Rightarrow> Inr (W_Syscalls (SyscallsWorker_new cfg c p), b)
      | Network _ _ _ _ _ _ _ _ _ _ \<Rightarrow> Inr (W_Network (NetworkWorker_new cfg c p), b)
      | Bpf _ _ \<Rightarrow> Inr (W_Bpf (BpfWorker_new cfg c p), b)
      | IOUring _ _ _ _ \<Rightarrow> Inr (W_IOUring (IOUringWorker_new cfg c p), b))"

section \<open>Starting the processes\<close>

definition core_list :: "WorkloadConfig \<Rightarrow> usize list option \<Rightarrow> panic + usize list" where
  "core_list cfg ids = (if per_core cfg then expect_some Unwrap_None ids else Inr [0])"

text \<open>\<open>iproduct!\<close>: for each core, every process number.\<close>

definition worker_slots :: "WorkloadConfig \<Rightarrow> usize list \<Rightarrow> (usize \<times> usize) list" where
  "worker_slots cfg cores = List.product cores (map of_nat [0..<unat (workers cfg)])"

text \<open>
  The closure of \<open>map\<close>, for the slots in order, with the sampler and the result of
  the fork for each. The parent goes on with the next slot; a child never
  returns from the closure: it is the worker, bound to its core when
  \<open>per_core\<close> is set.
\<close>

datatype spawn_result =
    In_parent "(i32 option) list" "worker list" bounds
  | In_child worker "usize option"
  | In_panic panic

fun spawn_workers ::
    "bool \<Rightarrow> WorkloadConfig \<Rightarrow> (sampler \<times> fork_result) list \<Rightarrow> (usize \<times> usize) list \<Rightarrow> bounds \<Rightarrow>
     (i32 option) list \<Rightarrow> worker list \<Rightarrow> spawn_result" where
  "spawn_workers oc cfg envs [] b hs ws = In_parent hs ws b"
| "spawn_workers oc cfg [] (s # ss) b hs ws = In_panic Unreachable"
| "spawn_workers oc cfg ((smp, fk) # envs) ((c, p) # slots) b hs ws =
     (case new_worker oc smp cfg c p b of
        Inl e \<Rightarrow> In_panic e
      | Inr (w, b') \<Rightarrow>
          (case fk of
             Fork_parent child \<Rightarrow> spawn_workers oc cfg envs slots b' (hs @ [Some child]) (ws @ [w])
           | Fork_child \<Rightarrow> In_child w (if per_core cfg then Some c else None)
           | Fork_error \<Rightarrow> spawn_workers oc cfg envs slots b' (hs @ [None]) (ws @ [w])))"

definition main_spawn ::
    "bool \<Rightarrow> WorkloadConfig \<Rightarrow> usize list option \<Rightarrow> (sampler \<times> fork_result) list \<Rightarrow> spawn_result" where
  "main_spawn oc cfg ids envs =
     (case core_list cfg ids of
        Inl e \<Rightarrow> In_panic e
      | Inr cores \<Rightarrow> spawn_workers oc cfg envs (worker_slots cfg cores) (1024, 1024) [] [])"

section \<open>The child\<close>

text \<open>
  What a round of \<open>run_payload\<close> meets outside, for all kinds of workers: the
  parameters of the worker theories.
\<close>

record ('i, 'e, 'd, 's, 'ss, 'n) run_env =
  re_oc :: bool
  re_exp_ok :: "f64 \<Rightarrow> bool"
  re_start :: nat
  re_ticks :: "loop_tick list"
  re_sysno :: "u32 \<Rightarrow> panic + Sysno"
  re_kernel :: kernel
  re_ring_ok :: bool
  re_ring :: ring_kernel
  re_copy :: "u8 list \<Rightarrow> 'e + 'i list"
  re_perf_size :: u32
  re_bpf :: "'i bpf_kernel"
  re_thread :: "usize \<Rightarrow> bool"
  re_bind :: "string \<Rightarrow> u16 \<Rightarrow> i32 + unit"
  re_arrivals :: "process_tick list"
  re_net :: "('d, 's, 'ss, 'n) net_env"

text \<open>A round returns, panics, or is still going on.\<close>

datatype round_end = Returns "WorkerError + unit" | Panics_with panic | Goes_on

fun round_of_outcome :: "payload_outcome \<Rightarrow> round_end" where
  "round_of_outcome (Failed e) = Returns (Inl e)"
| "round_of_outcome (Panicked p) = Panics_with p"
| "round_of_outcome (Running st) = Goes_on"

text \<open>\<open>run_payload\<close> of the trait \<open>Worker\<close>, on the boxed worker.\<close>

fun run_payload :: "('i, 'e, 'd, 's, 'ss, 'n) run_env \<Rightarrow> worker \<Rightarrow> round_end" where
  "run_payload env (W_Processes w) =
     (case snd (ProcessesWorker_run_payload (re_exp_ok env) w (re_arrivals env)) of
        Inl p \<Rightarrow> Panics_with p | Inr _ \<Rightarrow> Goes_on)"
| "run_payload env (W_Endpoints w) =
     (case EndpointWorker_run_payload (re_thread env) (re_bind env) w of
        Inl p \<Rightarrow> Panics_with p | Inr _ \<Rightarrow> Returns (Inr ()))"
| "run_payload env (W_Syscalls w) =
     round_of_outcome (fst (run_state (SyscallsWorker_run_payload (re_sysno env) (re_exp_ok env)
       (re_kernel env) (re_oc env) w (re_start env) (re_ticks env)) []))"
| "run_payload env (W_Network w) =
     (case NetworkWorker_run_payload (re_net env) w of
        Net_panics p \<Rightarrow> Panics_with p | Net_returns r \<Rightarrow> Returns r | Net_runs \<Rightarrow> Goes_on)"
| "run_payload env (W_Bpf w) =
     (case fst (run_state (BpfWorker_run_payload (re_copy env) (re_perf_size env) (re_bpf env) w) []) of
        Bpf_panicked p \<Rightarrow> Panics_with p | Bpf_parked \<Rightarrow> Goes_on)"
| "run_payload env (W_IOUring w) =
     round_of_outcome (fst (run_state (IOUringWorker_run_payload (re_ring_ok env) (re_exp_ok env)
       (re_ring env) (re_oc env) w (re_start env) (re_ticks env)) []))"

text \<open>
  The loop of the child: the payload is run again when it returns \<open>Ok\<close>, and an
  error is unwrapped. The list holds what each round meets; the result counts
  the rounds that returned.
\<close>

datatype child_end = Child_panics panic nat | Child_runs nat

fun child_loop :: "('i, 'e, 'd, 's, 'ss, 'n) run_env list \<Rightarrow> worker \<Rightarrow> nat \<Rightarrow> child_end" where
  "child_loop [] w n = Child_runs n"
| "child_loop (env # envs) w n =
     (case run_payload env w of
        Returns (Inr _) \<Rightarrow> child_loop envs w (Suc n)
      | Returns (Inl e) \<Rightarrow> Child_panics Unwrap_Err n
      | Panics_with p \<Rightarrow> Child_panics p n
      | Goes_on \<Rightarrow> Child_runs n)"

section \<open>The configuration\<close>

text \<open>
  The sources the configuration is built from, in order; the path is the first
  argument of the program or \<open>workload.toml\<close>. Building and merging them is the
  config crate, a parameter that gives the optional fields.
\<close>

datatype config_source = File_source string bool | Env_source string string bool

definition config_path :: "string list \<Rightarrow> string" where
  "config_path argv = (if 1 < length argv then argv ! 1 else ''workload.toml'')"

definition config_sources :: "string list \<Rightarrow> config_source list" where
  "config_sources argv =
     [File_source ''/etc/berserker/workload.toml'' False, File_source (config_path argv) False,
      Env_source ''BERSERKER'' ''__'' True]"

definition load_config ::
    "(config_source list \<Rightarrow> 'b + raw_config) \<Rightarrow> string list \<Rightarrow> panic + WorkloadConfig" where
  "load_config build argv =
     (case build (config_sources argv) of
        Inl _ \<Rightarrow> Inl Unwrap_Err
      | Inr raw \<Rightarrow> (case WorkloadConfig_of raw of Inl _ \<Rightarrow> Inl Unwrap_Err | Inr cfg \<Rightarrow> Inr cfg))"

definition main_start ::
    "bool \<Rightarrow> (config_source list \<Rightarrow> 'b + raw_config) \<Rightarrow> string list \<Rightarrow> usize list option \<Rightarrow>
     (sampler \<times> fork_result) list \<Rightarrow> spawn_result" where
  "main_start oc build argv ids envs =
     (case load_config build argv of Inl p \<Rightarrow> In_panic p | Inr cfg \<Rightarrow> main_spawn oc cfg ids envs)"

section \<open>Ending and reaping\<close>

datatype child_status = Alive | Exited | Reaped

text \<open>The stages of a child are ordered by how far it has got.\<close>

fun stage :: "child_status \<Rightarrow> nat" where
  "stage Alive = 0"
| "stage Exited = 1"
| "stage Reaped = 2"

lemma stage_inj [simp]: "stage a = stage b \<longleftrightarrow> a = b"
  by (cases a; cases b) simp_all

instantiation child_status :: linorder
begin

definition less_eq_child_status :: "child_status \<Rightarrow> child_status \<Rightarrow> bool" where
  "less_eq_child_status a b \<longleftrightarrow> stage a \<le> stage b"

definition less_child_status :: "child_status \<Rightarrow> child_status \<Rightarrow> bool" where
  "less_child_status a b \<longleftrightarrow> stage a < stage b"

instance
  by standard (auto simp: less_eq_child_status_def less_child_status_def simp flip: stage_inj)

end

text \<open>
  The state of the scope: what became of each child, whether the watcher thread
  is in its loop, whom it has still to signal and whom it has signalled, whom
  the waiter thread has still to wait for, and the seconds since the start as the
  watcher last read them, a \<open>u64\<close> like the duration they are compared with.
\<close>

record scope =
  status :: "i32 \<Rightarrow> child_status"
  watching :: bool
  to_signal :: "i32 list"
  signalled :: "i32 list"
  to_wait :: "i32 list"
  clock :: u64

definition flatten_handles :: "(i32 option) list \<Rightarrow> i32 list" where
  "flatten_handles hs = concat (map (\<lambda>h. case h of Some p \<Rightarrow> [p] | None \<Rightarrow> []) hs)"

definition scope_start :: "u64 \<Rightarrow> (i32 option) list \<Rightarrow> u64 \<Rightarrow> scope" where
  "scope_start dur hs t0 = \<lparr>status = (\<lambda>_. Alive), watching = (dur \<noteq> 0), to_signal = [],
     signalled = [], to_wait = flatten_handles hs, clock = t0\<rparr>"

text \<open>
  One step: a round of the watcher, which sleeps a second and looks at the
  elapsed time; one signal; the exit of a child; the waiter reaping the child
  it waits for. The threads interleave freely. The sleep makes the whole seconds
  grow in every round: the system clock is taken not to go back (\<open>elapsed\<close> would
  then be an error and the watcher panic).
\<close>

inductive scope_step :: "u64 \<Rightarrow> (i32 option) list \<Rightarrow> scope \<Rightarrow> scope \<Rightarrow> bool"
  for dur :: u64 and hs :: "(i32 option) list" where
  watch_on: "watching s \<Longrightarrow> clock s < t \<Longrightarrow> t \<le> dur \<Longrightarrow>
     scope_step dur hs s (s\<lparr>clock := t\<rparr>)"
| watch_end: "watching s \<Longrightarrow> clock s < t \<Longrightarrow> dur < t \<Longrightarrow>
     scope_step dur hs s (s\<lparr>clock := t, watching := False, to_signal := flatten_handles hs\<rparr>)"
| signal: "to_signal s = p # ps \<Longrightarrow>
     scope_step dur hs s (s\<lparr>to_signal := ps, signalled := signalled s @ [p]\<rparr>)"
| exit: "status s p = Alive \<Longrightarrow> scope_step dur hs s (s\<lparr>status := (status s)(p := Exited)\<rparr>)"
| reap: "to_wait s = p # ps \<Longrightarrow> status s p = Exited \<Longrightarrow>
     scope_step dur hs s (s\<lparr>status := (status s)(p := Reaped), to_wait := ps\<rparr>)"

inductive scope_reach :: "u64 \<Rightarrow> (i32 option) list \<Rightarrow> u64 \<Rightarrow> scope \<Rightarrow> bool"
  for dur :: u64 and hs :: "(i32 option) list" and t0 :: u64 where
  reach_start: "scope_reach dur hs t0 (scope_start dur hs t0)"
| reach_step: "scope_reach dur hs t0 s \<Longrightarrow> scope_step dur hs s s' \<Longrightarrow> scope_reach dur hs t0 s'"

text \<open>\<open>thread::scope\<close> returns, and the program ends, when both threads are done.\<close>

definition scope_done :: "scope \<Rightarrow> bool" where
  "scope_done s \<longleftrightarrow> \<not> watching s \<and> to_signal s = [] \<and> to_wait s = []"

end
