(* ===== verification/Main_Props.thy ===== *)
theory Main_Props
  imports Main_Process
begin

text \<open>
  What \<open>main\<close> guarantees: one worker per slot, disjoint port ranges, and how the
  threads that signal and reap the children can interleave.
\<close>

section \<open>Workers and slots\<close>

fun worker_base :: "worker \<Rightarrow> usize \<times> usize" where
  "worker_base (W_Processes w) = (cpu (pw_config w), process (pw_config w))"
| "worker_base (W_Endpoints w) = (cpu (ew_config w), process (ew_config w))"
| "worker_base (W_Syscalls w) = (cpu (sw_config w), process (sw_config w))"
| "worker_base (W_Network w) = (cpu (nw_config w), process (nw_config w))"
| "worker_base (W_Bpf w) = (cpu (bw_config w), process (bw_config w))"
| "worker_base (W_IOUring w) = (cpu (iw_config w), process (iw_config w))"

fun worker_for :: "Workload \<Rightarrow> worker \<Rightarrow> bool" where
  "worker_for (Processes _ _ _) w = (\<exists>x. w = W_Processes x)"
| "worker_for (Endpoints _) w = (\<exists>x. w = W_Endpoints x)"
| "worker_for (Syscalls _ _ _ _) w = (\<exists>x. w = W_Syscalls x)"
| "worker_for (Network _ _ _ _ _ _ _ _ _ _) w = (\<exists>x. w = W_Network x)"
| "worker_for (Bpf _ _) w = (\<exists>x. w = W_Bpf x)"
| "worker_for (IOUring _ _ _ _) w = (\<exists>x. w = W_IOUring x)"

lemma new_worker_base:
  "new_worker oc smp cfg c p b = Inr (w, b') \<Longrightarrow> worker_base w = (c, p) \<and> worker_for (workload cfg) w"
  by (auto simp: new_worker_def result_simps ProcessesWorker_new_def EndpointWorker_new_def
      SyscallsWorker_new_def NetworkWorker_new_def BpfWorker_new_def IOUringWorker_new_def
      split: Workload.splits)

fun handle_of :: "fork_result \<Rightarrow> i32 option" where
  "handle_of (Fork_parent p) = Some p"
| "handle_of _ = None"

lemma spawn_workers_slots:
  assumes "spawn_workers oc cfg envs slots b hs ws = In_parent hs' ws' b'"
  shows "\<exists>ws2. ws' = ws @ ws2 \<and> map worker_base ws2 = slots \<and>
           list_all (worker_for (workload cfg)) ws2 \<and>
           hs' = hs @ map handle_of (take (length slots) (map snd envs))"
  using assms
proof (induction oc cfg envs slots b hs ws rule: spawn_workers.induct)
  case (3 oc cfg smp fk envs c p slots b hs ws)
  then obtain w b1 where w: "new_worker oc smp cfg c p b = Inr (w, b1)"
    by (auto split: sum.splits)
  note base = new_worker_base [OF w]
  show ?case
  proof (cases fk)
    case (Fork_parent child)
    with "3.IH"(1) [OF w refl Fork_parent] "3.prems" w base show ?thesis by auto
  next
    case Fork_child
    with "3.prems" w show ?thesis by simp
  next
    case Fork_error
    with "3.IH"(2) [OF w refl Fork_error] "3.prems" w base show ?thesis by auto
  qed
qed simp_all

text \<open>A child process is the worker of one of the slots.\<close>

lemma spawn_workers_child:
  assumes "spawn_workers oc cfg envs slots b hs ws = In_child w aff"
  shows "\<exists>c p smp b1 b2. (c, p) \<in> set slots \<and> new_worker oc smp cfg c p b1 = Inr (w, b2) \<and>
           aff = (if per_core cfg then Some c else None)"
  using assms
proof (induction oc cfg envs slots b hs ws rule: spawn_workers.induct)
  case (3 oc cfg smp fk envs c p slots b hs ws)
  then obtain w1 b1 where w: "new_worker oc smp cfg c p b = Inr (w1, b1)"
    by (auto split: sum.splits)
  show ?case
  proof (cases fk)
    case (Fork_parent child)
    with "3.prems" w have "spawn_workers oc cfg envs slots b1 (hs @ [Some child]) (ws @ [w1]) = In_child w aff"
      by simp
    from "3.IH"(1) [OF w refl Fork_parent this] obtain d q smp' b2 b3 where "(d, q) \<in> set slots"
      "new_worker oc smp' cfg d q b2 = Inr (w, b3)" "aff = (if per_core cfg then Some d else None)" by blast
    then show ?thesis
      by (intro exI [of _ d] exI [of _ q] exI [of _ smp'] exI [of _ b2] exI [of _ b3]) simp
  next
    case Fork_child
    with "3.prems" w have "w1 = w" "aff = (if per_core cfg then Some c else None)" by simp_all
    with w show ?thesis
      by (intro exI [of _ c] exI [of _ p] exI [of _ smp] exI [of _ b] exI [of _ b1]) simp
  next
    case Fork_error
    with "3.prems" w have "spawn_workers oc cfg envs slots b1 (hs @ [None]) (ws @ [w1]) = In_child w aff"
      by simp
    from "3.IH"(2) [OF w refl Fork_error this] obtain d q smp' b2 b3 where "(d, q) \<in> set slots"
      "new_worker oc smp' cfg d q b2 = Inr (w, b3)" "aff = (if per_core cfg then Some d else None)" by blast
    then show ?thesis
      by (intro exI [of _ d] exI [of _ q] exI [of _ smp'] exI [of _ b2] exI [of _ b3]) simp
  qed
qed simp_all

lemma main_start_child:
  assumes "main_start oc build argv ids envs = In_child w aff"
  obtains cfg c p smp b1 b2 where "load_config build argv = Inr cfg"
    "new_worker oc smp cfg c p b1 = Inr (w, b2)" "aff = (if per_core cfg then Some c else None)"
proof -
  from assms obtain cfg where cfg: "load_config build argv = Inr cfg" "main_spawn oc cfg ids envs = In_child w aff"
    by (auto simp: main_start_def split: sum.splits)
  then obtain slots where "spawn_workers oc cfg envs slots (1024, 1024) [] [] = In_child w aff"
    by (auto simp: main_spawn_def split: sum.splits)
  from spawn_workers_child [OF this] cfg(1) show ?thesis using that by blast
qed

section \<open>Rounds of a worker\<close>

lemma syscalls_failed_internal:
  "fst (run_state (SyscallsWorker_run_payload sf eo k oc w t0 tks) tr) = Failed e \<Longrightarrow> e = Internal"
  by (auto simp: SyscallsWorker_run_payload_def syscalls_loop_def drop_and_def
      split: Workload.splits sum.splits prod.splits)

lemma iouring_failed_message:
  "fst (run_state (IOUringWorker_run_payload ro eo rk oc w t0 tks) tr) = Failed e \<Longrightarrow>
     e = InternalWithMessage ''Unsupported iouring number''"
  by (auto simp: IOUringWorker_run_payload_def iouring_loop_def new_iouring_generator_def
      split: Workload.splits sum.splits prod.splits if_splits)

lemma round_of_outcome_Returns [simp]:
  "round_of_outcome out = Returns r \<longleftrightarrow> (\<exists>e. out = Failed e \<and> r = Inl e)"
  by (cases out) auto

lemma round_error:
  assumes "run_payload env w = Returns (Inl e)"
  shows "(\<exists>x. w = W_Syscalls x) \<and> e = Internal \<or>
         (\<exists>x. w = W_IOUring x) \<and> e = InternalWithMessage ''Unsupported iouring number''"
  using assms
proof (cases w)
  case (W_Network x)
  with assms show ?thesis
    by (auto simp: NetworkWorker_run_payload_def
        split: net_round.splits sum.splits exit.splits Workload.splits if_splits)
qed (auto dest: syscalls_failed_internal iouring_failed_message split: sum.splits bpf_outcome.splits)

lemma round_ok:
  assumes "tcp_only (ne_stack (re_net env))" and "run_payload env w = Returns (Inr ())"
  shows "\<exists>x. w = W_Endpoints x"
  using assms(2)
  by (cases w) (auto simp: network_worker_never_returns [OF assms(1)]
      split: sum.splits bpf_outcome.splits net_round.splits)

lemma endpoint_round:
  assumes "\<And>p. re_thread env p"
  shows "run_payload env (W_Endpoints w) = Returns (Inr ())"
  unfolding run_payload.simps EndpointWorker_run_payload_def using assms
  by (simp add: traverse_map_Inr del: map_map)

section \<open>Port ranges\<close>

text \<open>The ranges of a list of endpoint workers follow each other without gap from \<open>a\<close> to \<open>z\<close>.\<close>

fun port_chain :: "nat \<Rightarrow> worker list \<Rightarrow> nat \<Rightarrow> bool" where
  "port_chain a [] z \<longleftrightarrow> a = z"
| "port_chain a (W_Endpoints w # ws) z \<longleftrightarrow>
     unat (ew_lower w) = a \<and> a \<le> unat (ew_upper w) \<and> port_chain (unat (ew_upper w)) ws z"
| "port_chain a (_ # ws) z \<longleftrightarrow> False"

fun has_port :: "nat \<Rightarrow> worker \<Rightarrow> bool" where
  "has_port p (W_Endpoints w) \<longleftrightarrow> unat (ew_lower w) \<le> p \<and> p < unat (ew_upper w)"
| "has_port p _ \<longleftrightarrow> False"

lemma port_chain_le: "port_chain a ws z \<Longrightarrow> a \<le> z"
  by (induction a ws z rule: port_chain.induct) auto

lemma port_chain_outside: "port_chain a ws z \<Longrightarrow> w \<in> set ws \<Longrightarrow> has_port p w \<Longrightarrow> a \<le> p \<and> p < z"
proof (induction a ws z rule: port_chain.induct)
  case (2 a w' ws z)
  then show ?case using port_chain_le [of "unat (ew_upper w')" ws z] by fastforce
qed simp_all

lemma port_chain_unique:
  assumes "port_chain a ws z" and "a \<le> p" and "p < z"
  shows "\<exists>!i. i < length ws \<and> has_port p (ws ! i)"
  using assms
proof (induction a ws z rule: port_chain.induct)
  case (2 a w ws z)
  show ?case
  proof (cases "p < unat (ew_upper w)")
    case True
    have "\<not> has_port p (ws ! i)" if "i < length ws" for i
      using port_chain_outside [of "unat (ew_upper w)" ws z "ws ! i" p] 2(2) that True by auto
    note none = this
    show ?thesis
    proof (intro ex1I [of _ 0])
      show "0 < length (W_Endpoints w # ws) \<and> has_port p ((W_Endpoints w # ws) ! 0)"
        using True 2(2,3) by simp
      fix j assume "j < length (W_Endpoints w # ws) \<and> has_port p ((W_Endpoints w # ws) ! j)"
      with none [of "j - 1"] show "j = 0" by (cases j) simp_all
    qed
  next
    case False
    with 2 have "\<exists>!i. i < length ws \<and> has_port p (ws ! i)" by simp
    then obtain i where i: "i < length ws" "has_port p (ws ! i)"
      "\<And>j. j < length ws \<Longrightarrow> has_port p (ws ! j) \<Longrightarrow> j = i" by blast
    show ?thesis
    proof (intro ex1I [of _ "Suc i"])
      show "Suc i < length (W_Endpoints w # ws) \<and> has_port p ((W_Endpoints w # ws) ! Suc i)"
        using i(1,2) by simp
      fix j assume "j < length (W_Endpoints w # ws) \<and> has_port p ((W_Endpoints w # ws) ! j)"
      with False i(3) show "j = Suc i" by (cases j) simp_all
    qed
  qed
qed simp_all

lemma spawn_workers_chain:
  assumes "workload cfg = Endpoints d"
    and "\<And>smp fk n. (smp, fk) \<in> set envs \<Longrightarrow> sample_ports smp d = Inr n \<Longrightarrow> unat n \<le> m"
    and "unat (snd b) + length slots * m < 2 ^ 64"
    and "spawn_workers oc cfg envs slots b hs ws = In_parent hs' ws' b'"
  shows "\<exists>ws2. ws' = ws @ ws2 \<and> port_chain (unat (snd b)) ws2 (unat (snd b'))"
  using assms(2-)
proof (induction envs arbitrary: slots b hs ws)
  case Nil
  then show ?case by (cases slots) auto
next
  case (Cons e envs)
  obtain smp fk where e: "e = (smp, fk)" by (cases e)
  show ?case
  proof (cases slots)
    case Nil
    with Cons.prems(3) show ?thesis by auto
  next
    case (Cons s slots')
    obtain c p where s: "s = (c, p)" by (cases s)
    from Cons.prems(3) Cons s e obtain x where "new_worker oc smp cfg c p b = Inr x"
      by (auto split: sum.splits)
    with assms(1) obtain n u where n: "sample_ports smp d = Inr n" "add_oc oc (snd b) n = Inr u"
      by (auto simp: new_worker_def result_simps)
    let ?w = "W_Endpoints (EndpointWorker_new cfg c p (snd b) u)"
    have "unat n \<le> m" using Cons.prems(1) [of smp fk n] n(1) e by simp
    moreover have "unat (snd b) + m + length slots' * m < 2 ^ 64"
      using Cons.prems(2) Cons by simp
    ultimately have u: "unat u = unat (snd b) + unat n" "unat u + length slots' * m < 2 ^ 64"
      using add_oc_exact(2) [of "snd b" n] add_oc_eq_Inr [OF n(2)] by simp_all
    have new: "new_worker oc smp cfg c p b = Inr (?w, (snd b, u))"
      using n assms(1) by (simp add: new_worker_def)
    have rest: "\<exists>ws2. ws' = (ws @ [?w]) @ ws2 \<and> port_chain (unat u) ws2 (unat (snd b'))"
      if "spawn_workers oc cfg envs slots' (snd b, u) h (ws @ [?w]) = In_parent hs' ws' b'" for h
      using Cons.IH [of "(snd b, u)" slots' h "ws @ [?w]"] Cons.prems(1) that u(2) by auto
    have "\<exists>ws2. ws' = (ws @ [?w]) @ ws2 \<and> port_chain (unat u) ws2 (unat (snd b'))"
      using Cons.prems(3) Cons s e new rest by (cases fk) auto
    then show ?thesis using u(1) by (auto simp: EndpointWorker_new_def)
  qed
qed

section \<open>The threads of the scope\<close>

definition scope_inv :: "u64 \<Rightarrow> (i32 option) list \<Rightarrow> u64 \<Rightarrow> scope \<Rightarrow> bool" where
  "scope_inv dur hs t0 s \<longleftrightarrow>
     (\<exists>reaped. flatten_handles hs = reaped @ to_wait s \<and> (\<forall>p \<in> set reaped. status s p = Reaped)) \<and>
     (\<forall>p \<in> set (to_wait s). status s p \<noteq> Reaped) \<and>
     (if watching s then dur \<noteq> 0 \<and> to_signal s = [] \<and> signalled s = [] \<and> (clock s = t0 \<or> clock s \<le> dur)
      else if dur = 0 then to_signal s = [] \<and> signalled s = []
      else signalled s @ to_signal s = flatten_handles hs \<and> dur < clock s)"

lemma scope_inv_start: "scope_inv dur hs t0 (scope_start dur hs t0)"
  by (simp add: scope_inv_def scope_start_def)

lemma scope_inv_step:
  assumes "scope_step dur hs s s'" and "scope_inv dur hs t0 s" and "distinct (flatten_handles hs)"
  shows "scope_inv dur hs t0 s'"
  using assms(1)
proof (cases rule: scope_step.cases)
  case (reap p ps)
  with assms(2) obtain reaped where r: "flatten_handles hs = reaped @ p # ps"
    "\<forall>q \<in> set reaped. status s q = Reaped" by (auto simp: scope_inv_def)
  with assms(3) have "p \<notin> set ps" by simp
  moreover have "flatten_handles hs = (reaped @ [p]) @ ps" using r(1) by simp
  ultimately show ?thesis
    using r(2) reap assms(2) unfolding scope_inv_def
    by (intro conjI exI [of _ "reaped @ [p]"]) (auto split: if_splits)
next
  case (exit p)
  with assms(2) show ?thesis
    unfolding scope_inv_def by (auto split: if_splits)
qed (use assms(2) in \<open>auto simp: scope_inv_def split: if_splits\<close>)

lemma scope_inv_reach:
  assumes "scope_reach dur hs t0 s" and "distinct (flatten_handles hs)"
  shows "scope_inv dur hs t0 s"
  using assms(1)
  by (induction rule: scope_reach.induct) (auto intro: scope_inv_start scope_inv_step assms(2))

abbreviation scope_steps :: "u64 \<Rightarrow> (i32 option) list \<Rightarrow> scope \<Rightarrow> scope \<Rightarrow> bool" where
  "scope_steps dur hs \<equiv> (scope_step dur hs)\<^sup>*\<^sup>*"

text \<open>A child only advances; in particular a reaped child stays reaped.\<close>

lemma status_advances:
  assumes "scope_steps dur hs s s'"
  shows "status s p \<le> status s' p"
  using assms
proof (induction rule: rtranclp_induct)
  case (step s1 s2)
  from step(2) have "status s1 p \<le> status s2 p"
    by (cases rule: scope_step.cases) (auto simp: less_eq_child_status_def)
  with step.IH show ?case by simp
qed simp

lemma reaped_stays_reaped:
  assumes "scope_steps dur hs s s'" and "status s p = Reaped"
  shows "status s' p = Reaped"
  using status_advances [OF assms(1), of p] assms(2)
  by (cases "status s' p") (simp_all add: less_eq_child_status_def)

text \<open>
  The steps in which a process ends, unless \<open>free\<close>, only after it was signalled:
  what the program itself brings about, without a process ending of its own accord.
\<close>

definition ending_step :: "bool \<Rightarrow> u64 \<Rightarrow> (i32 option) list \<Rightarrow> scope \<Rightarrow> scope \<Rightarrow> bool" where
  "ending_step free dur hs s s' \<longleftrightarrow> scope_step dur hs s s' \<and>
     (\<forall>p. status s p = Alive \<longrightarrow> status s' p \<noteq> Alive \<longrightarrow> free \<or> p \<in> set (signalled s))"

lemma ending_step_free [simp]: "ending_step True = scope_step"
  by (simp add: ending_step_def fun_eq_iff)

lemma ending_stepI: "scope_step dur hs s s' \<Longrightarrow> status s' = status s \<Longrightarrow> ending_step free dur hs s s'"
  by (simp add: ending_step_def)

lemma signals_drain:
  "\<exists>s'. (ending_step free dur hs)\<^sup>*\<^sup>* s s' \<and> to_signal s' = [] \<and> watching s' = watching s \<and>
     to_wait s' = to_wait s \<and> status s' = status s \<and> signalled s' = signalled s @ to_signal s"
proof (induction "to_signal s" arbitrary: s)
  case Nil
  then show ?case by (intro exI [of _ s]) simp
next
  case (Cons p ps)
  let ?s = "s\<lparr>to_signal := ps, signalled := signalled s @ [p]\<rparr>"
  have "ending_step free dur hs s ?s"
    using Cons(2) by (intro ending_stepI scope_step.signal) simp_all
  moreover from Cons(2) have "to_signal s = p # ps" by simp
  ultimately show ?case using Cons(1) [of ?s] by (auto intro: converse_rtranclp_into_rtranclp)
qed

lemma waits_drain:
  assumes "distinct (to_wait s)"
    and "\<forall>p \<in> set (to_wait s). status s p \<noteq> Reaped \<and> (free \<or> p \<in> set (signalled s))"
  shows "\<exists>s'. (ending_step free dur hs)\<^sup>*\<^sup>* s s' \<and> to_wait s' = [] \<and> watching s' = watching s \<and>
           to_signal s' = to_signal s"
  using assms
proof (induction "to_wait s" arbitrary: s)
  case Nil
  then show ?case by (intro exI [of _ s]) simp
next
  case (Cons p ps)
  define s1 where "s1 = s\<lparr>status := (status s)(p := Exited)\<rparr>"
  define s2 where "s2 = s1\<lparr>status := (status s1)(p := Reaped), to_wait := ps\<rparr>"
  have w: "to_wait s = p # ps" "p \<notin> set ps" using Cons(2,3) by (metis, metis distinct.simps(2))
  with Cons.prems(2) have p: "status s p \<noteq> Reaped" "free \<or> p \<in> set (signalled s)" by simp_all
  have "(ending_step free dur hs)\<^sup>*\<^sup>* s s1"
  proof (cases "status s p")
    case Alive
    with p(2) have "ending_step free dur hs s s1"
      by (auto simp: ending_step_def s1_def intro: scope_step.exit)
    then show ?thesis ..
  next
    case Exited
    then have "s1 = s" by (simp add: s1_def fun_upd_idem)
    then show ?thesis by simp
  qed (use p in simp)
  moreover have "ending_step free dur hs s1 s2"
    unfolding ending_step_def s2_def
    by (intro conjI scope_step.reap) (simp_all add: s1_def w(1))
  moreover have "\<exists>s'. (ending_step free dur hs)\<^sup>*\<^sup>* s2 s' \<and> to_wait s' = [] \<and> watching s' = watching s2 \<and>
      to_signal s' = to_signal s2"
    using Cons.prems w by (intro Cons(1)) (auto simp: s2_def s1_def)
  ultimately show ?case
    by (auto simp: s2_def s1_def intro: rtranclp_trans converse_rtranclp_into_rtranclp)
qed

text \<open>The watcher comes to its end, unless the duration is the largest \<open>u64\<close>.\<close>

lemma watcher_can_end:
  assumes "scope_inv dur hs t0 s" and "watching s" and "dur \<noteq> - 1" and "t0 \<noteq> - 1"
  shows "\<exists>t. scope_step dur hs s (s\<lparr>clock := t, watching := False, to_signal := flatten_handles hs\<rparr>)"
proof -
  have last: "x < - 1" if "x \<noteq> - 1" for x :: u64
    using that word_order.not_eq_extremum [of x] by simp
  from assms have "clock s = t0 \<or> clock s \<le> dur" by (simp add: scope_inv_def)
  with last [OF assms(3)] last [OF assms(4)] have "clock s < - 1" by auto
  with assms(2) last [OF assms(3)] show ?thesis by (intro exI [of _ "- 1"] scope_step.watch_end)
qed

lemma scope_can_finish:
  assumes "scope_inv dur hs t0 s" and "distinct (flatten_handles hs)"
    and "dur = 0 \<and> free \<or> dur \<noteq> - 1 \<and> t0 \<noteq> - 1 \<and> dur \<noteq> 0"
  shows "\<exists>s'. (ending_step free dur hs)\<^sup>*\<^sup>* s s' \<and> scope_done s'"
proof -
  obtain s1 where s1: "(ending_step free dur hs)\<^sup>*\<^sup>* s s1" "\<not> watching s1" "to_wait s1 = to_wait s"
    "status s1 = status s" "free \<or> signalled s1 @ to_signal s1 = flatten_handles hs"
  proof (cases "watching s")
    case True
    with assms(1) have "dur \<noteq> 0" by (simp add: scope_inv_def)
    with assms(3) watcher_can_end [OF assms(1) True] obtain t where
      "scope_step dur hs s (s\<lparr>clock := t, watching := False, to_signal := flatten_handles hs\<rparr>)" by blast
    then have "(ending_step free dur hs)\<^sup>*\<^sup>* s (s\<lparr>clock := t, watching := False, to_signal := flatten_handles hs\<rparr>)"
      by (intro r_into_rtranclp ending_stepI) simp_all
    then show ?thesis by (rule that) (use True assms(1) in \<open>simp_all add: scope_inv_def\<close>)
  next
    case False
    with assms(1,3) show ?thesis by (intro that [of s]) (auto simp: scope_inv_def)
  qed
  obtain s2 where s2: "(ending_step free dur hs)\<^sup>*\<^sup>* s1 s2" "to_signal s2 = []" "\<not> watching s2"
    "to_wait s2 = to_wait s" "status s2 = status s" "free \<or> signalled s2 = flatten_handles hs"
    using signals_drain [of free dur hs s1] s1 by auto
  from assms(1,2) have "distinct (to_wait s)" "\<forall>p \<in> set (to_wait s). status s p \<noteq> Reaped"
    "set (to_wait s) \<subseteq> set (flatten_handles hs)"
    by (auto simp: scope_inv_def)
  with s2(4-6) have "distinct (to_wait s2)"
    "\<forall>p \<in> set (to_wait s2). status s2 p \<noteq> Reaped \<and> (free \<or> p \<in> set (signalled s2))" by auto
  from waits_drain [OF this] s2(2,3) obtain s3 where
    "(ending_step free dur hs)\<^sup>*\<^sup>* s2 s3" "to_wait s3 = []" "\<not> watching s3" "to_signal s3 = []" by metis
  with s1(1) s2(1) show ?thesis unfolding scope_done_def by (meson rtranclp_trans)
qed

section \<open>A run\<close>

text \<open>A process that ends at once is reaped; the watcher goes on until the duration is over.\<close>

definition reaped_state :: "u64 \<Rightarrow> i32 \<Rightarrow> scope" where
  "reaped_state dur p = (scope_start dur [Some p] 0)\<lparr>status := (\<lambda>_. Alive)(p := Reaped), to_wait := []\<rparr>"

definition signal_state :: "u64 \<Rightarrow> i32 \<Rightarrow> scope" where
  "signal_state dur p = (reaped_state dur p)\<lparr>clock := dur + 1, watching := False, to_signal := [p]\<rparr>"

definition final_state :: "u64 \<Rightarrow> i32 \<Rightarrow> scope" where
  "final_state dur p = (signal_state dur p)\<lparr>to_signal := [], signalled := [p]\<rparr>"

lemma flatten_one [simp]: "flatten_handles [Some p] = [p]"
  by (simp add: flatten_handles_def)

lemma reach_reaped: "scope_reach dur [Some p] 0 (reaped_state dur p)"
proof -
  let ?s0 = "scope_start dur [Some p] 0"
  let ?s1 = "?s0\<lparr>status := (status ?s0)(p := Exited)\<rparr>"
  have "scope_step dur [Some p] ?s0 ?s1" by (rule scope_step.exit) (simp add: scope_start_def)
  then have "scope_reach dur [Some p] 0 ?s1" by (rule reach_step [OF reach_start])
  moreover have "scope_step dur [Some p] ?s1 (?s1\<lparr>status := (status ?s1)(p := Reaped), to_wait := []\<rparr>)"
    by (rule scope_step.reap) (simp_all add: scope_start_def)
  ultimately show ?thesis by (auto simp: reaped_state_def scope_start_def dest: reach_step)
qed

lemma step_to_signal: "dur \<noteq> 0 \<Longrightarrow> dur < dur + 1 \<Longrightarrow> scope_step dur [Some p] (reaped_state dur p) (signal_state dur p)"
  unfolding signal_state_def
  using scope_step.watch_end [of "reaped_state dur p" "dur + 1" dur "[Some p]"] order_le_less_trans [of 0 dur "dur + 1"]
  by (auto simp: reaped_state_def scope_start_def)

lemma step_to_final: "scope_step dur [Some p] (signal_state dur p) (final_state dur p)"
  unfolding final_state_def
  using scope_step.signal [of "signal_state dur p" p "[]" dur "[Some p]"]
  by (simp add: signal_state_def reaped_state_def scope_start_def)

lemma reach_signal: "dur \<noteq> 0 \<Longrightarrow> dur < dur + 1 \<Longrightarrow> scope_reach dur [Some p] 0 (signal_state dur p)"
  by (rule reach_step [OF reach_reaped step_to_signal])

lemma reach_final: "dur \<noteq> 0 \<Longrightarrow> dur < dur + 1 \<Longrightarrow> scope_reach dur [Some p] 0 (final_state dur p)"
  by (rule reach_step [OF reach_signal step_to_final])

lemmas run_states = final_state_def signal_state_def reaped_state_def scope_start_def

section \<open>Properties\<close>

abbreviation demo_cfg :: WorkloadConfig where
  "demo_cfg \<equiv> \<lparr>restart_interval = 10, per_core = True, workers = 1,
     workload = Endpoints (Uniform 1 100), duration = 60\<rparr>"

abbreviation demo_envs :: "(sampler \<times> fork_result) list" where
  "demo_envs \<equiv> [(\<lparr>zipf = (\<lambda>n e. Inr (Fin 1)), uniform = (\<lambda>l u. Inr 20)\<rparr>, Fork_parent 501),
                 (\<lparr>zipf = (\<lambda>n e. Inr (Fin 1)), uniform = (\<lambda>l u. Inr 30)\<rparr>, Fork_error)]"

lemma demo_spawn: "\<exists>hs ws b. main_spawn True demo_cfg (Some [0, 1]) demo_envs = In_parent hs ws b"
  by (simp add: main_spawn_def core_list_def worker_slots_def new_worker_def add_oc_def)

text \<open>
  C18: when the parent has started its processes there is exactly one worker of the
  configured kind for each pair of a core and a process number, core by core,
  and one handle for each: the process id, or nothing when the fork failed.
\<close>

theorem one_worker_per_slot:
  assumes "main_spawn oc cfg ids envs = In_parent hs ws b" and "core_list cfg ids = Inr cores"
  shows "map worker_base ws = List.product cores (map of_nat [0..<unat (workers cfg)]) \<and>
         length ws = length cores * unat (workers cfg) \<and> list_all (worker_for (workload cfg)) ws \<and>
         hs = map handle_of (take (length ws) (map snd envs))"
proof -
  have "spawn_workers oc cfg envs (worker_slots cfg cores) (1024, 1024) [] [] = In_parent hs ws b"
    using assms by (simp add: main_spawn_def)
  from spawn_workers_slots [OF this] have
    b: "map worker_base ws = worker_slots cfg cores" "list_all (worker_for (workload cfg)) ws"
      "hs = map handle_of (take (length (worker_slots cfg cores)) (map snd envs))" by auto
  have "length ws = length (worker_slots cfg cores)" using arg_cong [OF b(1), of length] by simp
  with b show ?thesis by (simp add: worker_slots_def)
qed

theorem one_worker_per_slot_witness:
  "\<exists>hs ws b. main_spawn True demo_cfg (Some [0, 1]) demo_envs = In_parent hs ws b \<and>
     map worker_base ws = [(0, 0), (1, 0)] \<and> hs = [Some 501, None]"
proof -
  obtain hs ws b where r: "main_spawn True demo_cfg (Some [0, 1]) demo_envs = In_parent hs ws b"
    using demo_spawn by blast
  from one_worker_per_slot [OF r, of "[0, 1]"] have "map worker_base ws = [(0, 0), (1, 0)]"
    "hs = [Some 501, None]" by (simp_all add: core_list_def)
  with r show ?thesis by (intro exI [of _ hs] exI [of _ ws] exI [of _ b] conjI)
qed

text \<open>
  C5: the port ranges of the endpoint workers partition the ports from 1024 up to
  the final upper bound: every port in between belongs to exactly one worker,
  and no worker has another port. This holds in both build modes when no
  sample reaches \<open>2 ^ 32\<close> ports and fewer than \<open>2 ^ 31\<close> workers are started.
\<close>

theorem port_ranges_partition:
  assumes "main_spawn oc cfg ids envs = In_parent hs ws b" and "workload cfg = Endpoints d"
    and "\<And>smp fk n. (smp, fk) \<in> set envs \<Longrightarrow> sample_ports smp d = Inr n \<Longrightarrow> unat n \<le> 2 ^ 32"
    and "core_list cfg ids = Inr cores" and "length cores * unat (workers cfg) < 2 ^ 31"
  shows "(\<forall>p. 1024 \<le> p \<and> p < unat (snd b) \<longrightarrow> (\<exists>!i. i < length ws \<and> has_port p (ws ! i))) \<and>
         (\<forall>w p. w \<in> set ws \<longrightarrow> has_port p w \<longrightarrow> 1024 \<le> p \<and> p < unat (snd b))"
proof -
  have s: "spawn_workers oc cfg envs (worker_slots cfg cores) (1024, 1024) [] [] = In_parent hs ws b"
    using assms(1,4) by (simp add: main_spawn_def)
  have "length (worker_slots cfg cores) < 2 ^ 31" using assms(5) by (simp add: worker_slots_def)
  then have "unat (snd (1024, 1024 :: usize)) + length (worker_slots cfg cores) * 2 ^ 32 < 2 ^ 64" by simp
  from spawn_workers_chain [OF assms(2,3) this s]
  have "port_chain 1024 ws (unat (snd b))" by simp
  with port_chain_unique port_chain_outside show ?thesis by blast
qed

theorem port_ranges_partition_witness:
  "\<exists>hs ws b. main_spawn True demo_cfg (Some [0, 1]) demo_envs = In_parent hs ws b \<and>
     unat (snd b) = 1074 \<and> (\<exists>!i. i < length ws \<and> has_port 1050 (ws ! i))"
proof -
  obtain hs ws b where r: "main_spawn True demo_cfg (Some [0, 1]) demo_envs = In_parent hs ws b"
    using demo_spawn by blast
  moreover from r have "unat (snd b) = 1074"
    by (auto simp: main_spawn_def core_list_def worker_slots_def new_worker_def add_oc_def)
  moreover have smp: "unat n \<le> 2 ^ 32"
    if "(smp, fk) \<in> set demo_envs" "sample_ports smp (Uniform 1 100) = Inr n" for smp fk n
    using that by auto
  have "(\<forall>p. 1024 \<le> p \<and> p < unat (snd b) \<longrightarrow> (\<exists>!i. i < length ws \<and> has_port p (ws ! i))) \<and>
      (\<forall>w p. w \<in> set ws \<longrightarrow> has_port p w \<longrightarrow> 1024 \<le> p \<and> p < unat (snd b))"
    by (rule port_ranges_partition [OF r, of "Uniform 1 100" "[0, 1]"])
       (use smp in \<open>auto simp: core_list_def\<close>)
  with \<open>unat (snd b) = 1074\<close> have "\<exists>!i. i < length ws \<and> has_port 1050 (ws ! i)" by simp
  ultimately show ?thesis by (intro exI [of _ hs] exI [of _ ws] exI [of _ b] conjI)
qed

text \<open>
  C17: the watcher signals nobody before the configured duration is over, and
  nobody at all when the duration is 0; it signals started processes only, each
  once and in the order they were started.
\<close>

theorem signals_only_after_duration:
  assumes "scope_reach dur hs t0 s" and "distinct (flatten_handles hs)"
  shows "(signalled s \<noteq> [] \<longrightarrow> dur \<noteq> 0 \<and> dur < clock s) \<and>
         (\<exists>rest. flatten_handles hs = signalled s @ rest) \<and> distinct (signalled s)"
proof -
  have "scope_inv dur hs t0 s" using assms by (rule scope_inv_reach)
  then have a: "signalled s = [] \<or> dur \<noteq> 0 \<and> dur < clock s \<and> signalled s @ to_signal s = flatten_handles hs"
    by (auto simp: scope_inv_def split: if_splits)
  with assms(2) have "distinct (signalled s)" by (metis distinct.simps(1) distinct_append)
  with a show ?thesis by (metis append_Nil)
qed

theorem signals_only_after_duration_witness:
  "signalled (final_state 60 501) = [501] \<and> 60 < clock (final_state 60 501) \<and>
   distinct (signalled (final_state 60 501))"
  using signals_only_after_duration [OF reach_final [of 60 501]] by (simp add: run_states)


text \<open>
  C7: the program ends only after every process it started has ended and was
  reaped, whatever the interleaving of the threads and the processes.
\<close>

theorem main_reaps_all_children:
  assumes "scope_reach dur hs t0 s" and "distinct (flatten_handles hs)" and "scope_done s"
    and "Some p \<in> set hs"
  shows "status s p = Reaped"
proof -
  have "p \<in> set (flatten_handles hs)" using assms(4) by (force simp: flatten_handles_def)
  with scope_inv_reach [OF assms(1,2)] assms(3) show ?thesis
    by (auto simp: scope_inv_def scope_done_def)
qed

theorem main_reaps_all_children_witness:
  "scope_done (final_state 60 501) \<and> status (final_state 60 501) 501 = Reaped"
  using main_reaps_all_children [OF reach_final [of 60 501], of 501]
  by (simp add: scope_done_def run_states)


text \<open>
  C15: from every reachable state the program can still end. When no duration is
  configured it ends once its processes have; with a duration below the largest
  \<open>u64\<close> no process has to end of its own accord, the signals of the watcher are
  enough: there is a way to the end in which a process ends only after it was
  signalled. With the largest \<open>u64\<close> as its duration the program never ends and
  signals nobody, since the elapsed seconds never exceed it.
\<close>

theorem main_never_deadlocks:
  assumes "scope_reach dur hs t0 s" and "distinct (flatten_handles hs)" and "t0 \<noteq> - 1"
  shows "(dur = 0 \<longrightarrow> (\<exists>s'. (scope_step dur hs)\<^sup>*\<^sup>* s s' \<and> scope_done s')) \<and>
         (dur \<noteq> 0 \<and> dur \<noteq> - 1 \<longrightarrow> (\<exists>s'. (ending_step False dur hs)\<^sup>*\<^sup>* s s' \<and> scope_done s')) \<and>
         (dur = - 1 \<longrightarrow> \<not> scope_done s \<and> signalled s = [])"
proof -
  note inv = scope_inv_reach [OF assms(1,2)]
  have "\<not> scope_done s \<and> signalled s = []" if "dur = - 1"
    using inv that by (auto simp: scope_inv_def scope_done_def split: if_splits)
  moreover have "\<exists>s'. (scope_step dur hs)\<^sup>*\<^sup>* s s' \<and> scope_done s'" if "dur = 0"
    using scope_can_finish [OF inv assms(2), of True] that by simp
  moreover have "\<exists>s'. (ending_step False dur hs)\<^sup>*\<^sup>* s s' \<and> scope_done s'" if "dur \<noteq> 0" "dur \<noteq> - 1"
    using scope_can_finish [OF inv assms(2), of False] that assms(3) by simp
  ultimately show ?thesis by blast
qed

theorem main_never_deadlocks_witness:
  "(\<exists>s'. (ending_step False 60 [Some 501])\<^sup>*\<^sup>* (reaped_state 60 501) s' \<and> scope_done s') \<and>
   \<not> scope_done (reaped_state (- 1) 501)"
  using main_never_deadlocks [OF reach_reaped [of 60 501]]
    main_never_deadlocks [OF reach_reaped [of "- 1" 501]] by simp

text \<open>
  A process that has ended and was reaped is still signalled when the duration
  is over: the watcher keeps the list of process ids it was started with, and by
  then the number may belong to another process. Until then the program does not
  end, although all its processes have.
\<close>

lemma reaped_process_is_signalled:
  "\<exists>s s'. scope_reach 60 [Some p] 0 s \<and> status s p = Reaped \<and> scope_step 60 [Some p] s s' \<and>
     signalled s' = signalled s @ [p]"
  using reach_signal [of 60 p] step_to_final [of 60 p]
  by (intro exI [of _ "signal_state 60 p"] exI [of _ "final_state 60 p"]) (simp add: run_states)

end
