(* ===== verification/Spec2Isabelle.thy ===== *)
theory Spec2Isabelle
  imports Unit_Tests Syscalls_Props Io_Uring_Props Main_Props
begin

text \<open>
  \<^bold>\<open>berserker\<close> generates load on a machine. The program reads a configuration,
  forks a number of processes per core, and lets each run one \<^emph>\<open>worker\<close>: listening
  endpoints, short-lived processes, system calls, io\_uring submissions, network
  connections or loaded BPF programs. A script language for workloads has a
  parser of its own. This development models the Rust code of \<open>src/src\<close> and
  proves what makes each part correct, and where it is not.

  \<^bold>\<open>How the code is modelled.\<close> A function that may panic returns \<open>panic + 'a\<close>,
  \<open>Result\<close> is a sum, machine integers are words, and arithmetic that overflows
  differently in debug and release builds takes the flag \<open>oc\<close>. Code outside the
  repository is a parameter: the kernel is any function of the trace of calls so
  far, smoltcp is a record of operations with a contract, the distributions of
  the rand crates are the samples they give. A loop that never ends is run over
  a list of what its iterations read from outside, so that a statement about all
  lists is one about every finite prefix of the run. Fuel is used only to compute
  the matches of the script grammar, with a bound that is always enough.

  \<^bold>\<open>The theories and the code.\<close>

  \<^item> \<open>Rust_Prelude\<close>, \<open>Rust_F64\<close>: panics and sequencing, checked and wrapping
    arithmetic, decimal conversions, and the doubles the delays are computed with.

  \<^item> \<open>Config\<close> (\<open>lib.rs\<close>): the configuration types with the defaults and tags of
    their attributes, the argument map and the arguments string. The locale
    \<open>text_conv\<close> states that a type is read back as it is printed; it is interpreted
    for the types the callers use.

  \<^item> \<open>Net_Addr\<close>, \<open>Net_Client\<close>, \<open>Net_Client_Props\<close> (\<open>worker/network.rs\<close>,
    \<open>get_local_addr_port\<close> and \<open>start_client\<close>): the endpoint of a connection index,
    and the client loop (arrival, preemption, sweep, close, wait) over the locale
    \<open>tcp_stack\<close>, with its invariant over all reachable states.

  \<^item> \<open>Net_Setup\<close> (\<open>worker/network.rs\<close>, \<open>setup_tuntap\<close> and the whole of
    \<open>start_client\<close>): the tun device and its interface over the locale \<open>tun_device\<close>,
    and a client from its set-up through any number of iterations.

  \<^item> \<open>Net_Server\<close> (\<open>worker/network.rs\<close>, \<open>start_server\<close>): the thread of a connection
    over what its reads returned up to some moment; the end of the stream is a read
    of no bytes.

  \<^item> \<open>Net_Worker\<close> (\<open>worker/network.rs\<close>, \<open>run_payload\<close>): the choice between the two, and
    the locale \<open>tcp_only\<close>, which extends \<open>tcp_stack\<close> by the kind of the sockets and
    shows that the client never returns.

  \<^item> \<open>Payload_Loop\<close>: traces, resources read off a trace, and the loop that the
    syscall and the io\_uring worker share. The locale \<open>payload_calls\<close> asks that a
    call only appends events and gives the shape of a run; \<open>payload_inv\<close> lifts an
    assertion from one call to the loop, and \<open>payload_frame\<close>, a resource that a
    call leaves alone, is a sublocale of it.

  \<^item> \<open>Syscalls\<close>, \<open>Syscalls_Props\<close> (\<open>worker/syscalls\<close>): a record and the functions
    \<open>new\<close>, \<open>init\<close>, \<open>call\<close>, \<open>drop\<close> for each of the nineteen callers, the dispatch
    and \<open>run_payload\<close>. Every call is brought into one form (\<open>call_spec\<close>), from which
    the descriptor and mapping interpretations of the locales follow and, with
    them, that the calls refine an abstract worker on open descriptors and mappings
    (\<open>resources\<close>, \<open>abstract_call\<close>).

  \<^item> \<open>Io_Uring\<close>, \<open>Io_Uring_Props\<close> (\<open>worker/io_uring\<close>): the four callers, the choice by
    opcode, descriptors delivered by completions, and the balance of the ring.

  \<^item> \<open>Bpf\<close> (\<open>worker/bpf.rs\<close>), \<open>Endpoints\<close> (\<open>worker/endpoints.rs\<close>), \<open>Processes\<close>
    (\<open>worker/processes.rs\<close>): the other workers with their properties. The threads of
    an endpoint worker run concurrently; what they did is a multiset.

  \<^item> \<open>Main_Process\<close>, \<open>Main_Props\<close> (\<open>worker/mod.rs\<close>, \<open>main.rs\<close>): the choice of a worker
    and the port ranges, starting the processes, the loop of a child over all
    kinds of workers, and the thread scope that signals and reaps the children as
    a step relation \<open>scope_step\<close>, with its invariant by rule induction. Its clock is
    a \<open>u64\<close> like the duration, so that the largest duration never expires;
    \<open>ending_step\<close> restricts it to processes that end only after a signal.

  \<^item> \<open>Script_Ast\<close>, \<open>Script_Parser\<close>, \<open>Script_Props\<close> (\<open>script/ast.rs\<close>,
    \<open>script/parser.rs\<close>, \<open>script/rules.rs\<close>): the syntax tree, which pairs the grammar
    allows below which (\<open>conforms\<close>), and the functions that turn pairs into the
    tree.

  \<^item> \<open>Peg\<close>, \<open>Script_Grammar\<close> (\<open>script/grammar.peg\<close>): the grammar language of pest as a
    relation \<open>derive\<close> and an interpreter \<open>run\<close>, and the rules of the grammar in it.
    The locale \<open>ranked_grammar\<close> holds the conditions under which the interpreter
    always answers; it is interpreted for the script grammar, as are its typing
    rules, which give \<open>conforms\<close>.

  \<^item> \<open>Script_Reader\<close>, \<open>Script_Text\<close>, \<open>Script_Roundtrip\<close>: how the grammar reads printed
    values, lists (locales \<open>listed\<close> and \<open>repeated\<close>, interpreted for arguments,
    parameters, options, instructions and work units) and whole scripts. The
    locale \<open>generated_parser\<close> is the contract of the parser that pest generates;
    \<open>parse_instructions\<close> is proved over it, from the text to the syntax tree.

  \<^item> \<open>Script_Scan\<close>, \<open>Unit_Tests\<close>: a quicker reader that is sound for the grammar, and
    the unit tests of \<open>script/parser.rs\<close>, \<open>lib.rs\<close> and \<open>worker/network.rs\<close>, which
    all pass on the model.

  This theory composes the parts: from the configuration to the system call of a
  forked process, and the workers as the child runs them.

  \<^bold>\<open>What the lemmas show.\<close> Invariants of state: the client's tables and counter, one
  held descriptor per syscall worker, balanced submissions, reaped children.
  Functional behaviour: what is called or submitted, how often and with which
  arguments, how many responses are sent, which ports are bound, which programs
  are linked. Safety: distinct
  endpoints, disjoint port ranges, closed descriptors, no signal before its time.
  Round trips: argument strings, and scripts from their text to the syntax tree.
  The grammar: it answers on every text, and its pairs have the types the
  translation expects. Liveness and termination: the loops run on, the connection
  thread ends when its stream does, the thread scope can always end unless its
  duration never expires.
  Several lemmas show where the code differs from what it announces; they are
  named in their texts.

  \<^bold>\<open>Bounds.\<close> The counter of the shared loop is a \<open>u64\<close>; statements about runs assume
  fewer than \<open>2 ^ 64\<close> iterations. Port ranges assume samples below \<open>2 ^ 32\<close> and
  fewer than \<open>2 ^ 31\<close> workers, so that no addition wraps. A delay is exact to one
  unit below \<open>2 ^ 52\<close> units, where a double still resolves halves. The fuel of the
  grammar is six units per character and six more: fuel is spent on rule calls
  and repetitions, at most five rules call each other without consuming a
  character (\<open>script_rank\<close>), and implicit whitespace adds one. The quicker reader is
  run with 100 units, which is sound whatever the amount, as an answer of it is
  derivable.

  \<^bold>\<open>Not modelled.\<close> Building the configuration from files and the environment (the
  config crate), the Rust code pest generates from the grammar (its language is modelled
  as pest documents it: \<open>e+\<close> skips no whitespace after its last match, and
  positions and error messages are left out), the insides of the tun device and
  the TCP stack (smoltcp), logging, the assembly stub and the scripts.
  The rates in the log are computed in the model whether or not the log level
  shows them. The system clock is taken not to be set back while the program
  runs, and \<open>waitpid\<close> on an own child not to fail. The error number of a
  completion is negated with wrap-around, which only differs from the code for
  the smallest \<open>i32\<close>, never the result of a completion.
\<close>

section \<open>From the configuration to the kernel\<close>

definition open_config :: "u64 \<Rightarrow> string \<Rightarrow> usize \<Rightarrow> usize \<Rightarrow> raw_config" where
  "open_config ri path f m =
     \<lparr>raw_restart_interval = Some ri, raw_per_core = None, raw_workers = None,
      raw_workload_table = Some (raw_empty\<lparr>raw_type := Some ''syscalls'', raw_arrival_rate := Some (Fin 1),
        raw_syscall_nr := Some 2,
        raw_syscall_args := Some (render_args (open_kvs path f m))\<rparr>),
      raw_duration = None\<rparr>"

lemma open_config_workload:
  assumes "CHR 0x00 \<notin> set path" and "CHR '','' \<notin> set path"
  obtains args cfg where "WorkloadConfig_of (open_config ri path f m) = Inr cfg"
    "workload cfg = Syscalls (Fin 1) False 2 args"
    "primary (SysCallerEnum_new Sys_open args) = Syscall Sys_open [CStr path, Num f, Num m]"
proof -
  let ?m = "map_of (rev (open_kvs path f m))"
  let ?cfg = "\<lparr>restart_interval = ri, per_core = default_per_core, workers = default_workers,
    workload = Syscalls (Fin 1) False 2 ?m, duration = default_duration\<rparr>"
  have "WorkloadConfig_of (open_config ri path f m) = Inr ?cfg"
    using open_args_map [OF assms(2), of f m]
    by (simp add: WorkloadConfig_of_def open_config_def Workload_of_def required_def raw_empty_def
        args_field_def default_syscalls_tight_loop_def)
  moreover note open_args_primary [OF assms, of f m]
  ultimately show ?thesis using that by simp
qed

text \<open>
  C1: the whole way from the configuration to the kernel. When the sources hold a
  \<open>syscalls\<close> workload for \<open>open\<close> with its three arguments, every process that is
  forked is a syscall worker, bound to its core, whose first action is \<open>open\<close>
  with exactly these arguments, followed on success by the close of the
  descriptor it got.
\<close>

theorem configured_open_reaches_kernel:
  assumes "build (config_sources argv) = Inr (open_config ri path f m)"
    and "CHR 0x00 \<notin> set path" and "CHR '','' \<notin> set path"
    and "main_start oc build argv ids envs = In_child w aff"
    and "sysno_from 2 = Inr Sys_open" and "exp_ok (Fin 1)"
    and "clock_ok tk" and "at_check tk \<le> t0 + 10000000000"
    and "ev = Syscall Sys_open [CStr path, Num f, Num m]"
  shows "\<exists>sw c rest. w = W_Syscalls sw \<and> aff = Some c \<and> cpu (sw_config sw) = c \<and>
           snd (run_state (SyscallsWorker_run_payload sysno_from exp_ok k oc sw t0 [tk]) []) =
             Ev (ev, k [] ev) # rest \<and>
           (\<forall>fd. k [] ev = Inr fd \<longrightarrow> (\<exists>r rest'. rest = Ev (Syscall Sys_close [Num fd], r) # rest'))"
proof -
  obtain args cfg where cfg: "WorkloadConfig_of (open_config ri path f m) = Inr cfg"
    "workload cfg = Syscalls (Fin 1) False 2 args"
    "primary (SysCallerEnum_new Sys_open args) = ev"
    using open_config_workload [OF assms(2,3)] assms(9) by metis
  have "load_config build argv = Inr cfg" using assms(1) cfg(1) by (simp add: load_config_def)
  moreover obtain cfg' c p smp b1 b2 where ch: "load_config build argv = Inr cfg'"
    "new_worker oc smp cfg' c p b1 = Inr (w, b2)" "aff = (if per_core cfg' then Some c else None)"
    by (rule main_start_child [OF assms(4)])
  ultimately have w: "w = W_Syscalls (SyscallsWorker_new cfg c p)" "aff = (if per_core cfg then Some c else None)"
    using cfg(2) by (auto simp: new_worker_def)
  have "per_core cfg" using cfg(1)
    by (auto simp: WorkloadConfig_of_def open_config_def required_def result_simps default_per_core_def)
  let ?st = "\<lparr>counter = 0, start = t0\<rparr> :: loop_state"
  have "\<not> 10 < elapsed_secs (at_check tk) t0" using assms(8) by (simp add: elapsed_secs_def)
  then have rep: "report_entries tk ?st = ([] :: os_trace)" by (simp add: report_entries_def)
  let ?o = "OpenCall (OpenCall_new args)"
  have "snd (run_state (SyscallsWorker_run_payload sysno_from exp_ok k oc (SyscallsWorker_new cfg c p) t0 [tk]) []) =
      snd (call_spec k ?o []) @ [Slept (loop_delay tk)]"
    using assms(5-7) cfg(2) run_payload_step [OF assms(7), of ?st oc False "SysCaller_call k ?o" "[]"] rep
    by (simp add: SyscallsWorker_run_payload_def SyscallsWorker_new_def syscalls_loop_def exp_new_def
        run_try_res run_SysCaller_call del: SysCaller_call.simps)
  with w \<open>per_core cfg\<close> cfg(3) show ?thesis
    by (auto simp: SyscallsWorker_new_def call_spec_def Let_def split: sum.splits)
qed

abbreviation demo_build :: "config_source list \<Rightarrow> unit + raw_config" where
  "demo_build \<equiv> \<lambda>_. Inr (open_config 10 ''/etc/hosts'' 66 420)"

abbreviation demo_fork :: "(sampler \<times> fork_result) list" where
  "demo_fork \<equiv> [(\<lparr>zipf = (\<lambda>n e. Inl Unwrap_Err), uniform = (\<lambda>l u. Inl Empty_range)\<rparr>, Fork_child)]"

lemma demo_main_child: "\<exists>w aff. main_start True demo_build [] (Some [0]) demo_fork = In_child w aff"
proof -
  obtain args cfg where "WorkloadConfig_of (open_config 10 ''/etc/hosts'' 66 420) = Inr cfg"
    "workload cfg = Syscalls (Fin 1) False 2 args"
    by (rule open_config_workload [of "''/etc/hosts''" 10 66 420]) auto
  moreover from this(1) have "per_core cfg" "workers cfg = 1"
    by (auto simp: WorkloadConfig_of_def open_config_def required_def result_simps default_per_core_def
        default_workers_def)
  ultimately show ?thesis
    by (simp add: main_start_def load_config_def main_spawn_def core_list_def worker_slots_def new_worker_def)
qed

theorem configured_open_reaches_kernel_witness:
  "\<exists>sw c r rest. main_start True demo_build [] (Some [0]) demo_fork = In_child (W_Syscalls sw) (Some c) \<and>
     snd (run_state (SyscallsWorker_run_payload (\<lambda>_. Inr Sys_open) (\<lambda>_. True) small_kernel True sw 0 [demo_tick]) []) =
       Ev (Syscall Sys_open [CStr ''/etc/hosts'', Num 66, Num 420], Inr 3) #
       Ev (Syscall Sys_close [Num 3], r) # rest"
proof -
  obtain w aff where m: "main_start True demo_build [] (Some [0]) demo_fork = In_child w aff"
    using demo_main_child by blast
  have k: "small_kernel [] (Syscall Sys_open [CStr ''/etc/hosts'', Num 66, Num 420]) = Inr 3"
    by (simp add: small_kernel_def)
  have "\<exists>sw c rest. w = W_Syscalls sw \<and> aff = Some c \<and> cpu (sw_config sw) = c \<and>
      snd (run_state (SyscallsWorker_run_payload (\<lambda>_. Inr Sys_open) (\<lambda>_. True) small_kernel True sw 0 [demo_tick]) []) =
        Ev (Syscall Sys_open [CStr ''/etc/hosts'', Num 66, Num 420],
            small_kernel [] (Syscall Sys_open [CStr ''/etc/hosts'', Num 66, Num 420])) # rest \<and>
      (\<forall>fd. small_kernel [] (Syscall Sys_open [CStr ''/etc/hosts'', Num 66, Num 420]) = Inr fd \<longrightarrow>
        (\<exists>r rest'. rest = Ev (Syscall Sys_close [Num fd], r) # rest'))"
    by (rule configured_open_reaches_kernel [OF _ _ _ m]) (simp_all add: clock_ok_def)
  with m k show ?thesis by fastforce
qed

section \<open>Workers as the child runs them\<close>

text \<open>
  C29: which workers come back to the loop of the child, and how, on a TCP stack
  whose sockets stay TCP sockets: only endpoint workers return \<open>Ok\<close> and are run
  again, and network workers never return although their \<open>run_payload\<close> ends in
  \<open>Ok(())\<close>; an error, which the loop turns into a panic, comes only from a syscall
  worker whose initialisation failed or from an io\_uring worker with an
  unsupported opcode.
\<close>

theorem which_workers_return:
  assumes "tcp_only (ne_stack (re_net env))" and "run_payload env w = Returns r"
  shows "case r of
           Inr _ \<Rightarrow> \<exists>x. w = W_Endpoints x
         | Inl e \<Rightarrow> (\<exists>x. w = W_Syscalls x) \<and> e = Internal \<or>
             (\<exists>x. w = W_IOUring x) \<and> e = InternalWithMessage ''Unsupported iouring number''"
  using assms round_error [of env w] round_ok [of env w] by (auto split: sum.splits)

abbreviation demo_net :: "(medium, (u32 \<times> u16) option, slab, unit) net_env" where
  "demo_net \<equiv> \<lparr>ne_bind = (\<lambda>_ _. True), ne_incoming = [], ne_tun = unit_tun, ne_stack = slab_stack,
     ne_exp_ok = (\<lambda>_. True), ne_oc = True, ne_inputs = demo_inputs\<rparr>"

abbreviation demo_env :: "(u8 list, unit, medium, (u32 \<times> u16) option, slab, unit) run_env" where
  "demo_env \<equiv> \<lparr>re_oc = True, re_exp_ok = (\<lambda>_. True), re_start = 0, re_ticks = [demo_tick],
     re_sysno = (\<lambda>_. Inr Sys_connect), re_kernel = deaf_kernel, re_ring_ok = True, re_ring = small_ring,
     re_copy = (\<lambda>p. Inr [p]), re_perf_size = 136, re_bpf = (\<lambda>w c. - 1), re_thread = (\<lambda>_. True),
     re_bind = (\<lambda>h p. Inl 98), re_arrivals = [], re_net = demo_net\<rparr>"

theorem which_workers_return_witness:
  "\<exists>e. run_payload demo_env (W_IOUring (demo_iouring 99)) = Returns (Inl e) \<and>
     e = InternalWithMessage ''Unsupported iouring number''"
proof -
  obtain e where r: "run_payload demo_env (W_IOUring (demo_iouring 99)) = Returns (Inl e)"
    by (simp add: IOUringWorker_run_payload_def IOUringWorker_new_def new_iouring_generator_def)
  have "tcp_only (ne_stack (re_net demo_env))" by (simp add: slab_only.tcp_only_axioms)
  from which_workers_return [OF this r] r show ?thesis by auto
qed

text \<open>
  The child of an endpoint worker restarts its listeners for ever: as long as
  threads can be created, no answer of the system to its binds ends it or keeps
  it from the next round.
\<close>

lemma endpoint_child_restarts:
  assumes "\<And>env p. env \<in> set envs \<Longrightarrow> re_thread env p"
  shows "child_loop envs (W_Endpoints w) n = Child_runs (n + length envs)"
  using assms by (induction envs arbitrary: n) (simp_all add: endpoint_round del: run_payload.simps)

lemma endpoint_child_restarts_witness:
  "child_loop [demo_env, demo_env] (W_Endpoints (EndpointWorker_new \<lparr>restart_interval = 10, per_core = False,
     workers = 1, workload = Endpoints (Uniform 1 100), duration = 0\<rparr> 0 0 1024 1030)) 0 =
   Child_runs (0 + length [demo_env, demo_env])"
  by (rule endpoint_child_restarts) auto

end
